theory Spec2Isabelle
  imports Main
begin

section \<open>Recorded clips: ClipReader.py on top of FfMpegClipReader.py\<close>

subsection \<open>The native clip library\<close>

text \<open>
  The decode engine behind \<^verbatim>\<open>_lib\<close> is a C library outside the repository. It is taken
  as a parameter: a record of the entry points that \<^verbatim>\<open>FfMpegClipReader\<close> calls, over an
  arbitrary type \<open>'n\<close> of native clip states, an arbitrary type \<open>'x\<close> of
  \<^verbatim>\<open>extras\<close> dictionaries and an arbitrary type \<open>'w\<close> of states of the world the
  library opens files in (the files on disk, the handles and memory still available).
  Every entry point that receives the clip may change it, so it returns the clip it
  leaves behind. Opening a clip reads and changes the world: \<open>open_clip\<close> takes the
  world as it is and returns the world it leaves, so that the same file may open at one
  call and fail to open at the next. A frame pointer is represented by the \<^verbatim>\<open>ms\<close> field
  of the struct it points to (\<open>None\<close> for a NULL pointer); the pixel buffer is opaque to
  the Python code and is left out. \<open>open_clip\<close> returns \<open>None\<close> both when the library
  returns NULL and when the call raises: \<^verbatim>\<open>FfMpegClipReader.open\<close> answers False to
  both. \<open>audio_mute\<close> reads the \<^verbatim>\<open>'audioMute'\<close> key of the extras.
\<close>

record ('n, 'x, 'w) videolib =
  open_clip :: "'w \<Rightarrow> string option \<Rightarrow> int \<Rightarrow> int \<Rightarrow> int \<Rightarrow> 'x option \<Rightarrow> 'n option \<times> 'w"
  get_output_width :: "'n \<Rightarrow> int"
  get_output_height :: "'n \<Rightarrow> int"
  get_input_width :: "'n \<Rightarrow> int"
  get_input_height :: "'n \<Rightarrow> int"
  set_mute_audio :: "'n \<Rightarrow> bool \<Rightarrow> 'n"
  clip_has_audio :: "'n \<Rightarrow> bool"
  get_clip_length :: "'n \<Rightarrow> int \<times> 'n"
  get_next_frame :: "'n \<Rightarrow> int option \<times> 'n"
  get_prev_frame :: "'n \<Rightarrow> int option \<times> 'n"
  get_next_frame_offset :: "'n \<Rightarrow> int \<times> 'n"
  get_frame_at :: "'n \<Rightarrow> int \<Rightarrow> int option \<times> 'n"
  get_ms_list :: "'n \<Rightarrow> int list option \<times> 'n"
  set_output_size :: "'n \<Rightarrow> int \<Rightarrow> int \<Rightarrow> 'n"
  audio_mute :: "'x \<Rightarrow> bool option"

subsection \<open>FfMpegClipFrame and FfMpegClipReader\<close>

record ClipFrame =
  ms :: int
  frameWidth :: "int option"
  frameHeight :: "int option"

text \<open>
  The fields \<^verbatim>\<open>_clip\<close>, \<^verbatim>\<open>_mute\<close>, \<^verbatim>\<open>_width\<close> and \<^verbatim>\<open>_height\<close> of one
  \<^verbatim>\<open>FfMpegClipReader\<close> object. \<^verbatim>\<open>_width\<close> and \<^verbatim>\<open>_height\<close> start as None.
\<close>

record 'n FfMpegClipReader =
  clip :: "'n option"
  mute :: bool
  outWidth :: "int option"
  outHeight :: "int option"

definition FfMpegClipReader_init :: "'n FfMpegClipReader" where
  "FfMpegClipReader_init = \<lparr>clip = None, mute = False, outWidth = None, outHeight = None\<rparr>"

definition FfMpeg_close :: "'n FfMpegClipReader \<Rightarrow> 'n FfMpegClipReader" where
  "FfMpeg_close r = r\<lparr>clip := None, outWidth := Some 0, outHeight := Some 0\<rparr>"

definition FfMpeg_setMute ::
  "('n, 'x, 'w) videolib \<Rightarrow> bool \<Rightarrow> 'n FfMpegClipReader \<Rightarrow> 'n FfMpegClipReader" where
  "FfMpeg_setMute lib m r =
     (let r1 = r\<lparr>mute := m\<rparr>
      in case clip r1 of
           None \<Rightarrow> r1
         | Some n \<Rightarrow> r1\<lparr>clip := Some (set_mute_audio lib n m)\<rparr>)"

text \<open>
  \<^verbatim>\<open>FfMpegClipReader.open\<close>, given the world the library opens the file in; it returns
  the world the library leaves.
\<close>

definition FfMpeg_open ::
  "('n, 'x, 'w) videolib \<Rightarrow> string option \<Rightarrow> int \<Rightarrow> int \<Rightarrow> int \<Rightarrow> 'x option \<Rightarrow> 'w \<Rightarrow>
     'n FfMpegClipReader \<Rightarrow> (bool \<times> 'n FfMpegClipReader) \<times> 'w" where
  "FfMpeg_open lib filename w h firstMs' extras' world r =
     (let r1 = (if clip r \<noteq> None then FfMpeg_close r else r);
          r2 = (case extras' of
                  None \<Rightarrow> r1
                | Some x \<Rightarrow> r1\<lparr>mute := (case audio_mute lib x of None \<Rightarrow> mute r1 | Some m \<Rightarrow> m)\<rparr>)
      in case open_clip lib world filename w h firstMs' extras' of
           (None, world') \<Rightarrow> ((False, r2\<lparr>clip := None\<rparr>), world')
         | (Some n, world') \<Rightarrow>
             ((True,
               FfMpeg_setMute lib (mute r2)
                 (r2\<lparr>clip := Some n,
                     outWidth := Some (get_output_width lib n),
                     outHeight := Some (get_output_height lib n)\<rparr>)),
              world'))"

definition mkFrame :: "'n FfMpegClipReader \<Rightarrow> int \<Rightarrow> ClipFrame" where
  "mkFrame r t = \<lparr>ms = t, frameWidth = outWidth r, frameHeight = outHeight r\<rparr>"

definition FfMpeg_getNextFrame ::
  "('n, 'x, 'w) videolib \<Rightarrow> 'n FfMpegClipReader \<Rightarrow> ClipFrame option \<times> 'n FfMpegClipReader" where
  "FfMpeg_getNextFrame lib r =
     (case clip r of
        None \<Rightarrow> (None, r)
      | Some n \<Rightarrow>
          (case get_next_frame lib n of
             (None, n') \<Rightarrow> (None, r\<lparr>clip := Some n'\<rparr>)
           | (Some t, n') \<Rightarrow> (Some (mkFrame r t), r\<lparr>clip := Some n'\<rparr>)))"

definition FfMpeg_getPrevFrame ::
  "('n, 'x, 'w) videolib \<Rightarrow> 'n FfMpegClipReader \<Rightarrow> ClipFrame option \<times> 'n FfMpegClipReader" where
  "FfMpeg_getPrevFrame lib r =
     (case clip r of
        None \<Rightarrow> (None, r)
      | Some n \<Rightarrow>
          (case get_prev_frame lib n of
             (None, n') \<Rightarrow> (None, r\<lparr>clip := Some n'\<rparr>)
           | (Some t, n') \<Rightarrow> (Some (mkFrame r t), r\<lparr>clip := Some n'\<rparr>)))"

definition FfMpeg_getFrameAt ::
  "('n, 'x, 'w) videolib \<Rightarrow> int \<Rightarrow> 'n FfMpegClipReader \<Rightarrow> ClipFrame option \<times> 'n FfMpegClipReader" where
  "FfMpeg_getFrameAt lib msOffset r =
     (case clip r of
        None \<Rightarrow> (None, r)
      | Some n \<Rightarrow>
          (case get_frame_at lib n msOffset of
             (None, n') \<Rightarrow> (None, r\<lparr>clip := Some n'\<rparr>)
           | (Some t, n') \<Rightarrow> (Some (mkFrame r t), r\<lparr>clip := Some n'\<rparr>)))"

definition FfMpeg_seek ::
  "('n, 'x, 'w) videolib \<Rightarrow> int \<Rightarrow> 'n FfMpegClipReader \<Rightarrow> ClipFrame option \<times> 'n FfMpegClipReader" where
  "FfMpeg_seek lib msOffset r = FfMpeg_getFrameAt lib msOffset r"

definition FfMpeg_getDuration ::
  "('n, 'x, 'w) videolib \<Rightarrow> 'n FfMpegClipReader \<Rightarrow> int \<times> 'n FfMpegClipReader" where
  "FfMpeg_getDuration lib r =
     (case clip r of
        None \<Rightarrow> (- 1, r)
      | Some n \<Rightarrow> (case get_clip_length lib n of (d, n') \<Rightarrow> (d, r\<lparr>clip := Some n'\<rparr>)))"

definition FfMpeg_getMsList ::
  "('n, 'x, 'w) videolib \<Rightarrow> 'n FfMpegClipReader \<Rightarrow> int list \<times> 'n FfMpegClipReader" where
  "FfMpeg_getMsList lib r =
     (case clip r of
        None \<Rightarrow> ([], r)
      | Some n \<Rightarrow>
          (case get_ms_list lib n of
             (None, n') \<Rightarrow> ([], r\<lparr>clip := Some n'\<rparr>)
           | (Some l, n') \<Rightarrow> (l, r\<lparr>clip := Some n'\<rparr>)))"

definition FfMpeg_getNextFrameOffset ::
  "('n, 'x, 'w) videolib \<Rightarrow> 'n FfMpegClipReader \<Rightarrow> int \<times> 'n FfMpegClipReader" where
  "FfMpeg_getNextFrameOffset lib r =
     (case clip r of
        None \<Rightarrow> (- 1, r)
      | Some n \<Rightarrow> (case get_next_frame_offset lib n of (d, n') \<Rightarrow> (d, r\<lparr>clip := Some n'\<rparr>)))"

subsection \<open>ClipReader\<close>

text \<open>
  A \<^verbatim>\<open>ClipReader\<close> holds references to up to three \<^verbatim>\<open>FfMpegClipReader\<close> objects.
  The objects live in \<open>readers\<close>, the list of every reader whose \<^verbatim>\<open>open\<close> succeeded
  since the \<^verbatim>\<open>ClipReader\<close> was constructed; a reference is an index into that list,
  so that \<open>length (readers s)\<close> is the number of decode handles allocated so far and
  two references are the same object exactly when they are the same index. A reader whose
  \<^verbatim>\<open>open\<close> fails is dropped by \<^verbatim>\<open>_allocReader\<close> at once and never enters the list.
  \<open>nativeWorld\<close> is the world the native library opens clips in; it is no attribute of the
  \<^verbatim>\<open>ClipReader\<close>, which only passes it to the library and keeps what the library leaves.
  The remaining fields are the attributes that \<^verbatim>\<open>_reset\<close> initialises, with
  \<^verbatim>\<open>_readerPrevMs\<close>, \<^verbatim>\<open>_duration\<close> and \<^verbatim>\<open>_msList\<close> written without the underscore.
\<close>

record ('n, 'x, 'w) ClipReader =
  nativeWorld :: 'w
  readers :: "'n FfMpegClipReader list"
  seqReader :: "nat option"
  randReader :: "nat option"
  firstReader :: "nat option"
  path :: "string option"
  width :: int
  height :: int
  firstMs :: int
  extras :: "'x option"
  prevMs :: int
  readerPrevMs :: int
  isDone :: bool
  duration :: "int option"
  msList :: "int list option"

text \<open>Calling a method of the reader behind reference \<open>i\<close>, which may change that reader.\<close>

definition onReader ::
  "nat \<Rightarrow> ('n FfMpegClipReader \<Rightarrow> 'a \<times> 'n FfMpegClipReader) \<Rightarrow>
     ('n, 'x, 'w) ClipReader \<Rightarrow> 'a \<times> ('n, 'x, 'w) ClipReader" where
  "onReader i f s =
     (case f (readers s ! i) of (a, r') \<Rightarrow> (a, s\<lparr>readers := (readers s)[i := r']\<rparr>))"

definition closeReader :: "nat option \<Rightarrow> ('n, 'x, 'w) ClipReader \<Rightarrow> ('n, 'x, 'w) ClipReader" where
  "closeReader ref s =
     (case ref of
        None \<Rightarrow> s
      | Some i \<Rightarrow> s\<lparr>readers := (readers s)[i := FfMpeg_close (readers s ! i)]\<rparr>)"

definition ClipReader_reset :: "bool \<Rightarrow> ('n, 'x, 'w) ClipReader \<Rightarrow> ('n, 'x, 'w) ClipReader" where
  "ClipReader_reset forClose s =
     (let s1 = (if forClose
                then closeReader (seqReader s) (closeReader (randReader s) (closeReader (firstReader s) s))
                else s)
      in s1\<lparr>seqReader := None, randReader := None, firstReader := None,
             path := None, width := 0, height := 0, firstMs := - 1, extras := None,
             prevMs := - 1, readerPrevMs := - 1, isDone := False,
             duration := None, msList := None\<rparr>)"

text \<open>
  \<^verbatim>\<open>__init__\<close>, in a given world: no reader exists yet, and \<^verbatim>\<open>_reset()\<close> sets every
  attribute.
\<close>

definition ClipReader_init :: "'w \<Rightarrow> ('n, 'x, 'w) ClipReader" where
  "ClipReader_init world =
     \<lparr>nativeWorld = world, readers = [], seqReader = None, randReader = None, firstReader = None,
      path = None, width = 0, height = 0, firstMs = - 1, extras = None,
      prevMs = - 1, readerPrevMs = - 1, isDone = False,
      duration = None, msList = None\<rparr>"

definition ClipReader_close :: "('n, 'x, 'w) ClipReader \<Rightarrow> ('n, 'x, 'w) ClipReader" where
  "ClipReader_close s = ClipReader_reset True s"

definition allocReader ::
  "('n, 'x, 'w) videolib \<Rightarrow> ('n, 'x, 'w) ClipReader \<Rightarrow> nat option \<times> ('n, 'x, 'w) ClipReader" where
  "allocReader lib s =
     (case FfMpeg_open lib (path s) (width s) (height s) (firstMs s) (extras s) (nativeWorld s)
             FfMpegClipReader_init of
        ((success, reader), world') \<Rightarrow>
          if \<not> success then (None, s\<lparr>nativeWorld := world'\<rparr>)
          else (Some (length (readers s)), s\<lparr>nativeWorld := world', readers := readers s @ [reader]\<rparr>))"

definition ClipReader_open ::
  "('n, 'x, 'w) videolib \<Rightarrow> string \<Rightarrow> int \<Rightarrow> int \<Rightarrow> int \<Rightarrow> 'x option \<Rightarrow>
     ('n, 'x, 'w) ClipReader \<Rightarrow> bool \<times> ('n, 'x, 'w) ClipReader" where
  "ClipReader_open lib filename w h firstMs' extras' s =
     (let s1 = ClipReader_close s;
          s2 = s1\<lparr>path := Some filename, width := w, height := h,
                  firstMs := firstMs', extras := extras'\<rparr>
      in case allocReader lib s2 of
           (reader, s3) \<Rightarrow> (reader \<noteq> None, s3\<lparr>firstReader := reader\<rparr>))"

definition getAnyReader :: "('n, 'x, 'w) ClipReader \<Rightarrow> nat option" where
  "getAnyReader s =
     (if firstReader s \<noteq> None then firstReader s
      else if randReader s \<noteq> None then randReader s
      else if seqReader s \<noteq> None then seqReader s
      else None)"

definition getSeqReader ::
  "('n, 'x, 'w) videolib \<Rightarrow> ('n, 'x, 'w) ClipReader \<Rightarrow> nat option \<times> ('n, 'x, 'w) ClipReader" where
  "getSeqReader lib s =
     (let s' = (if seqReader s = None
                then (if firstReader s \<noteq> None
                      then s\<lparr>seqReader := firstReader s, firstReader := None\<rparr>
                      else (case allocReader lib s of (reader, s1) \<Rightarrow> s1\<lparr>seqReader := reader\<rparr>))
                else s)
      in (seqReader s', s'))"

definition getRandReader ::
  "('n, 'x, 'w) videolib \<Rightarrow> ('n, 'x, 'w) ClipReader \<Rightarrow> nat option \<times> ('n, 'x, 'w) ClipReader" where
  "getRandReader lib s =
     (let s' = (if randReader s = None
                then (if firstReader s \<noteq> None
                      then s\<lparr>randReader := firstReader s, firstReader := None\<rparr>
                      else (case allocReader lib s of (reader, s1) \<Rightarrow> s1\<lparr>randReader := reader\<rparr>))
                else s)
      in (randReader s', s'))"

definition getDuration ::
  "('n, 'x, 'w) videolib \<Rightarrow> ('n, 'x, 'w) ClipReader \<Rightarrow> int \<times> ('n, 'x, 'w) ClipReader" where
  "getDuration lib s =
     (case duration s of
        Some d \<Rightarrow> (d, s)
      | None \<Rightarrow>
          (case getAnyReader s of
             None \<Rightarrow> (- 1, s)
           | Some i \<Rightarrow>
               (case onReader i (FfMpeg_getDuration lib) s of
                  (d, s1) \<Rightarrow> (d, s1\<lparr>duration := Some d\<rparr>))))"

text \<open>\<^verbatim>\<open>if not self._msList\<close> holds for None and for the empty list.\<close>

definition getMsList ::
  "('n, 'x, 'w) videolib \<Rightarrow> ('n, 'x, 'w) ClipReader \<Rightarrow> int list \<times> ('n, 'x, 'w) ClipReader" where
  "getMsList lib s =
     (if msList s = None \<or> msList s = Some []
      then (case getRandReader lib s of
              (None, s1) \<Rightarrow> ([], s1)
            | (Some i, s1) \<Rightarrow>
                (case onReader i (FfMpeg_getMsList lib) s1 of
                   (l, s2) \<Rightarrow> (l, s2\<lparr>msList := Some l\<rparr>)))
      else (case msList s of Some l \<Rightarrow> (l, s) | None \<Rightarrow> ([], s)))"

definition seek ::
  "('n, 'x, 'w) videolib \<Rightarrow> int \<Rightarrow> ('n, 'x, 'w) ClipReader \<Rightarrow> ClipFrame option \<times> ('n, 'x, 'w) ClipReader" where
  "seek lib msOffset s =
     (case getSeqReader lib s of
        (None, s1) \<Rightarrow> (None, s1)
      | (Some i, s1) \<Rightarrow>
          (case onReader i (FfMpeg_seek lib msOffset) s1 of
             (None, s2) \<Rightarrow> (None, s2\<lparr>readerPrevMs := - 1, prevMs := - 1\<rparr>)
           | (Some clipFrame, s2) \<Rightarrow>
               (Some clipFrame, s2\<lparr>readerPrevMs := ms clipFrame, prevMs := ms clipFrame\<rparr>)))"

definition getNextFrame ::
  "('n, 'x, 'w) videolib \<Rightarrow> ('n, 'x, 'w) ClipReader \<Rightarrow> ClipFrame option \<times> ('n, 'x, 'w) ClipReader" where
  "getNextFrame lib s =
     (let s0 = (if readerPrevMs s \<noteq> prevMs s then snd (seek lib (prevMs s) s) else s)
      in case getSeqReader lib s0 of
           (None, s1) \<Rightarrow> (None, s1)
         | (Some i, s1) \<Rightarrow>
             (case onReader i (FfMpeg_getNextFrame lib) s1 of
                (None, s2) \<Rightarrow> (None, s2\<lparr>readerPrevMs := - 1, prevMs := - 1, isDone := True\<rparr>)
              | (Some clipFrame, s2) \<Rightarrow>
                  (Some clipFrame, s2\<lparr>readerPrevMs := ms clipFrame, prevMs := ms clipFrame\<rparr>)))"

definition getPrevFrame ::
  "('n, 'x, 'w) videolib \<Rightarrow> ('n, 'x, 'w) ClipReader \<Rightarrow> ClipFrame option \<times> ('n, 'x, 'w) ClipReader" where
  "getPrevFrame lib s =
     (let s0 = (if readerPrevMs s \<noteq> prevMs s then snd (seek lib (prevMs s) s) else s)
      in case getSeqReader lib s0 of
           (None, s1) \<Rightarrow> (None, s1)
         | (Some i, s1) \<Rightarrow>
             (case onReader i (FfMpeg_getPrevFrame lib) s1 of
                (None, s2) \<Rightarrow> (None, s2\<lparr>readerPrevMs := - 1, prevMs := - 1\<rparr>)
              | (Some clipFrame, s2) \<Rightarrow>
                  (Some clipFrame,
                   s2\<lparr>readerPrevMs := ms clipFrame, isDone := False, prevMs := ms clipFrame\<rparr>)))"

definition getNextFrameOffset ::
  "('n, 'x, 'w) videolib \<Rightarrow> ('n, 'x, 'w) ClipReader \<Rightarrow> int \<times> ('n, 'x, 'w) ClipReader" where
  "getNextFrameOffset lib s =
     (case getSeqReader lib s of
        (None, s1) \<Rightarrow> (- 1, s1)
      | (Some i, s1) \<Rightarrow> onReader i (FfMpeg_getNextFrameOffset lib) s1)"

definition setMute :: "('n, 'x, 'w) videolib \<Rightarrow> bool \<Rightarrow> ('n, 'x, 'w) ClipReader \<Rightarrow> ('n, 'x, 'w) ClipReader" where
  "setMute lib m s =
     (let s1 = (case seqReader s of
                  None \<Rightarrow> s
                | Some i \<Rightarrow> s\<lparr>readers := (readers s)[i := FfMpeg_setMute lib m (readers s ! i)]\<rparr>)
      in case randReader s1 of
           None \<Rightarrow> s1
         | Some j \<Rightarrow> s1\<lparr>readers := (readers s1)[j := FfMpeg_setMute lib m (readers s1 ! j)]\<rparr>)"

definition getFrameAt ::
  "('n, 'x, 'w) videolib \<Rightarrow> int \<Rightarrow> ('n, 'x, 'w) ClipReader \<Rightarrow> ClipFrame option \<times> ('n, 'x, 'w) ClipReader" where
  "getFrameAt lib msOffset s =
     (case getRandReader lib s of
        (None, s1) \<Rightarrow> (None, s1)
      | (Some i, s1) \<Rightarrow> onReader i (FfMpeg_getFrameAt lib msOffset) s1)"

definition markDone :: "('n, 'x, 'w) ClipReader \<Rightarrow> ('n, 'x, 'w) ClipReader" where
  "markDone s = s\<lparr>isDone := True\<rparr>"

definition getPrevMs :: "('n, 'x, 'w) ClipReader \<Rightarrow> int" where
  "getPrevMs s = prevMs s"

section \<open>Live streams: StreamReader.py\<close>

subsection \<open>Paths\<close>

text \<open>
  \<^verbatim>\<open>os.path.join\<close> of two components and the tail of \<^verbatim>\<open>os.path.split\<close>, as
  \<^verbatim>\<open>posixpath\<close> defines them, and \<^verbatim>\<open>str.lower\<close> on byte strings (only the ASCII
  letters A to Z change).
\<close>

definition os_path_join :: "string \<Rightarrow> string \<Rightarrow> string" where
  "os_path_join a b =
     (if b \<noteq> [] \<and> hd b = CHR ''/'' then b
      else if a = [] \<or> last a = CHR ''/'' then a @ b
      else a @ ''/'' @ b)"

definition os_path_split_tail :: "string \<Rightarrow> string" where
  "os_path_split_tail p = rev (takeWhile (\<lambda>c. c \<noteq> CHR ''/'') (rev p))"

definition isupper :: "char \<Rightarrow> bool" where
  "isupper c = (65 \<le> (of_char c :: nat) \<and> (of_char c :: nat) \<le> 90)"

definition lower_char :: "char \<Rightarrow> char" where
  "lower_char c = (if isupper c then char_of ((of_char c :: nat) + 32) else c)"

definition lower :: "string \<Rightarrow> string" where
  "lower s = map lower_char s"

subsection \<open>What the session does to the outside world\<close>

text \<open>
  The snapshot a \<^verbatim>\<open>ThreadedFileMover\<close> takes of its owner in \<^verbatim>\<open>__init__\<close>. The clip
  manager and the move-failed callback are objects outside the repository: the fields
  \<open>mv_clipManager\<close> and \<open>mv_moveFailedFn\<close> say whether one was supplied, and the calls
  made on them are recorded as events.
\<close>

record ThreadedFileMover =
  mv_curFilename :: string
  mv_storageDir :: string
  mv_curDirPath :: string
  mv_recordDir :: string
  mv_prevDirPath :: string
  mv_prevFilename :: string
  mv_procSize :: "int \<times> int"
  mv_curStartMs :: int
  mv_curLastMs :: int
  mv_recordInMemory :: bool
  mv_clipManager :: bool
  mv_moveFailedFn :: bool
  mv_locationName :: string

text \<open>
  The calls that leave the session, in the order they are made:
  \<^item> \<open>FlushOutput\<close>: \<^verbatim>\<open>_videolib.flush_output(self._stream)\<close>;
  \<^item> \<open>FreeStreamData\<close>: \<^verbatim>\<open>_videolib.free_stream_data\<close>;
  \<^item> \<open>ThreadStart t\<close>: \<^verbatim>\<open>self._moverThread.start()\<close> for the mover \<open>t\<close>;
  \<^item> \<open>MoveRecordedFile src dst ok\<close> and \<open>ShutilMove src dst ok\<close>: the relocation
    attempted by \<^verbatim>\<open>run\<close> (the first when recording in memory), with whether it
    succeeded;
  \<^item> \<open>MoveFailed p\<close>: \<^verbatim>\<open>self._moveFailedFn(p)\<close>;
  \<^item> \<open>AddClip p loc startMs lastMs prevFile w h\<close>: \<^verbatim>\<open>self._clipManager.addClip\<close> (its two
    constant arguments \<^verbatim>\<open>""\<close> and \<^verbatim>\<open>1\<close> are left out);
  \<^item> \<open>KillableCallback\<close>: the callback given to \<^verbatim>\<open>close\<close>.
  Logging, timing statistics and the creation of the target folder (whose failure is only
  logged) are left out.
\<close>

datatype event =
    FlushOutput
  | FreeStreamData
  | ThreadStart ThreadedFileMover
  | MoveRecordedFile string string bool
  | ShutilMove string string bool
  | MoveFailed string
  | AddClip string string int int string int int
  | KillableCallback

text \<open>
  What the environment decides. An \<open>observation\<close> is made each time the session looks at
  its mover thread: \<open>alive\<close> is the answer of \<^verbatim>\<open>isAlive()\<close>, and \<open>moved\<close> says whether
  that thread's relocation succeeds. One call of \<^verbatim>\<open>getNewFrame\<close> or \<^verbatim>\<open>close\<close> looks at
  the thread at most twice: in \<^verbatim>\<open>_addFileToDb\<close> (\<open>atSubmit\<close>, the thread of the segment
  before) and at its end (\<open>atFinalize\<close>). \<open>nativeProcSize\<close> is what
  \<^verbatim>\<open>get_proc_width\<close> and \<^verbatim>\<open>get_proc_height\<close> answer.

  The effects of a thread's \<^verbatim>\<open>run\<close> are appended to the trace where the session first
  finds the thread finished (or joins it): the session cannot tell any earlier moment
  apart, and \<^verbatim>\<open>run\<close> reads nothing but the thread's own snapshot.
\<close>

record observation =
  alive :: bool
  moved :: bool

record env =
  atSubmit :: observation
  atFinalize :: observation
  nativeProcSize :: "int \<times> int"

text \<open>
  \<^verbatim>\<open>StreamFrameStruct\<close>, without the buffer and its dimensions, and the answer of one
  \<^verbatim>\<open>get_new_frame\<close> call: \<open>result\<close> is None for a NULL pointer, and \<open>is_running\<close> is
  what \<^verbatim>\<open>_videolib.is_running\<close> would answer.
\<close>

record StreamFrameStruct =
  sf_ms :: int
  sf_filename :: string
  sf_isRunning :: int

record poll =
  result :: "StreamFrameStruct option"
  is_running :: int

subsection \<open>StreamReader\<close>

text \<open>
  The attributes of a \<^verbatim>\<open>StreamReader\<close> that the methods below read or write, without
  the leading underscore, and \<open>trace\<close>, the events so far. \<open>stream\<close> is None for a NULL
  handle.
\<close>

record StreamReader =
  locationName :: string
  clipManager :: bool
  recordDir :: string
  storageDir :: string
  recordInMemory :: bool
  moveFailedFn :: bool
  cachedProcSize :: "int \<times> int"
  moverThread :: "ThreadedFileMover option"
  stream :: "nat option"
  isRunning :: bool
  prevFilename :: string
  prevDirPath :: string
  curFilePath :: string
  curFilename :: string
  curDirPath :: string
  curStartMs :: int
  curLastMs :: int
  isMmapLargeView :: bool
  mmapViewWidth :: int
  mmapViewHeight :: int
  mmapViewFps :: int
  trace :: "event list"

definition emit :: "event list \<Rightarrow> StreamReader \<Rightarrow> StreamReader" where
  "emit es s = s\<lparr>trace := trace s @ es\<rparr>"

definition initVariables :: "StreamReader \<Rightarrow> StreamReader" where
  "initVariables s =
     s\<lparr>stream := None, isRunning := False,
       prevFilename := [], prevDirPath := [], curFilePath := [], curFilename := [],
       curDirPath := [], curStartMs := 0, curLastMs := 0,
       isMmapLargeView := False, mmapViewWidth := 0, mmapViewHeight := 0, mmapViewFps := 0\<rparr>"

text \<open>
  \<^verbatim>\<open>__init__\<close>, given the two directories as the constructor stores them (absolute, with a
  trailing separator).
\<close>

definition StreamReader_init :: "string \<Rightarrow> bool \<Rightarrow> string \<Rightarrow> string \<Rightarrow> bool \<Rightarrow> StreamReader" where
  "StreamReader_init name' clipManager' recordDir' storageDir' moveFailedCallback =
     \<lparr>locationName = name', clipManager = clipManager', recordDir = recordDir',
      storageDir = storageDir', recordInMemory = False, moveFailedFn = moveFailedCallback,
      cachedProcSize = (0, 0), moverThread = None,
      stream = None, isRunning = False,
      prevFilename = [], prevDirPath = [], curFilePath = [], curFilename = [],
      curDirPath = [], curStartMs = 0, curLastMs = 0,
      isMmapLargeView = False, mmapViewWidth = 0, mmapViewHeight = 0, mmapViewFps = 0,
      trace = []\<rparr>"

definition getProcSize :: "int \<times> int \<Rightarrow> StreamReader \<Rightarrow> (int \<times> int) \<times> StreamReader" where
  "getProcSize native s =
     (let s' = (if isRunning s \<and> stream s \<noteq> None then s\<lparr>cachedProcSize := native\<rparr> else s)
      in (cachedProcSize s', s'))"

definition ThreadedFileMover_init ::
  "int \<times> int \<Rightarrow> StreamReader \<Rightarrow> ThreadedFileMover \<times> StreamReader" where
  "ThreadedFileMover_init native owner =
     (case getProcSize native owner of
        (size', owner') \<Rightarrow>
          (\<lparr>mv_curFilename = curFilename owner,
            mv_storageDir = storageDir owner,
            mv_curDirPath = curDirPath owner,
            mv_recordDir = recordDir owner,
            mv_prevDirPath = prevDirPath owner,
            mv_prevFilename = prevFilename owner,
            mv_procSize = size',
            mv_curStartMs = curStartMs owner,
            mv_curLastMs = curLastMs owner,
            mv_recordInMemory = recordInMemory owner,
            mv_clipManager = clipManager owner,
            mv_moveFailedFn = moveFailedFn owner,
            mv_locationName = locationName owner\<rparr>,
           owner'))"

text \<open>
  \<^verbatim>\<open>ThreadedFileMover.run\<close>, given whether the relocation succeeds. When it fails and no
  callback was supplied, calling None raises inside the thread, which ends it.
\<close>

definition ThreadedFileMover_run :: "bool \<Rightarrow> ThreadedFileMover \<Rightarrow> event list" where
  "ThreadedFileMover_run ok t =
     (if mv_curFilename t = [] \<or> \<not> mv_clipManager t then []
      else
        (let targetFolder = os_path_join (mv_storageDir t) (mv_curDirPath t);
             src = os_path_join (mv_recordDir t) (mv_curFilename t);
             dst = os_path_join targetFolder (lower (mv_curFilename t))
         in (if mv_recordInMemory t then MoveRecordedFile src dst ok else ShutilMove src dst ok) #
            (if ok then []
             else if mv_moveFailedFn t
                  then [MoveFailed (os_path_join (mv_curDirPath t) (mv_curFilename t))]
                  else [])))"

definition ThreadedFileMover_addFileToDb :: "ThreadedFileMover \<Rightarrow> event" where
  "ThreadedFileMover_addFileToDb t =
     (let prevFile = (if mv_prevFilename t \<noteq> []
                      then os_path_join (mv_prevDirPath t) (mv_prevFilename t) else [])
      in AddClip (os_path_join (mv_curDirPath t) (lower (mv_curFilename t)))
           (mv_locationName t) (mv_curStartMs t) (mv_curLastMs t) prevFile
           (fst (mv_procSize t)) (snd (mv_procSize t)))"

definition finalizeMoverThread :: "bool \<Rightarrow> observation \<Rightarrow> StreamReader \<Rightarrow> StreamReader" where
  "finalizeMoverThread blockIfRunning ob s =
     (case moverThread s of
        None \<Rightarrow> s
      | Some t \<Rightarrow>
          if alive ob \<and> \<not> blockIfRunning then s
          else (emit (ThreadedFileMover_run (moved ob) t @ [ThreadedFileMover_addFileToDb t]) s)
                 \<lparr>moverThread := None\<rparr>)"

definition terminateMoverThread :: "observation \<Rightarrow> StreamReader \<Rightarrow> StreamReader" where
  "terminateMoverThread ob s = finalizeMoverThread True ob s"

definition addFileToDb :: "env \<Rightarrow> StreamReader \<Rightarrow> StreamReader" where
  "addFileToDb e s =
     (if curFilename s = [] \<or> \<not> clipManager s then s
      else
        (case ThreadedFileMover_init (nativeProcSize e) (terminateMoverThread (atSubmit e) s) of
           (t, s') \<Rightarrow> emit [ThreadStart t] (s'\<lparr>moverThread := Some t\<rparr>)))"

definition flush :: "int option \<Rightarrow> StreamReader \<Rightarrow> StreamReader" where
  "flush msNeeded s =
     (if stream s \<noteq> None \<and> isRunning s \<and>
         (case msNeeded of None \<Rightarrow> True | Some m \<Rightarrow> m \<ge> curStartMs s)
      then emit [FlushOutput] s
      else s)"

text \<open>
  \<^verbatim>\<open>close\<close>; \<open>killableCallback\<close> says whether a callback was given. Whether
  \<^verbatim>\<open>free_stream_data\<close> clears the handle it is given makes no difference: nothing reads
  \<^verbatim>\<open>_stream\<close> with \<^verbatim>\<open>isRunning\<close> False before \<^verbatim>\<open>_initVariables\<close> sets it to None.
\<close>

definition StreamReader_close :: "env \<Rightarrow> bool \<Rightarrow> StreamReader \<Rightarrow> StreamReader" where
  "StreamReader_close e killableCallback s =
     (let s1 = flush None s;
          s2 = s1\<lparr>isRunning := False\<rparr>;
          s3 = (if stream s2 \<noteq> None then emit [FreeStreamData] s2 else s2);
          s4 = (if curFilename s3 \<noteq> [] then addFileToDb e s3 else s3);
          s5 = terminateMoverThread (atFinalize e) s4;
          s6 = (if killableCallback then emit [KillableCallback] s5 else s5)
      in initVariables s6)"

text \<open>
  \<^verbatim>\<open>open\<close>, given the handle \<^verbatim>\<open>open_stream\<close> returns and the \<^verbatim>\<open>kRecordInMemory\<close>
  entry of the extras; the flags passed to the library and \<^verbatim>\<open>set_mmap_params\<close> are left
  out.
\<close>

definition StreamReader_open ::
  "nat option \<Rightarrow> bool \<Rightarrow> env \<Rightarrow> StreamReader \<Rightarrow> bool \<times> StreamReader" where
  "StreamReader_open handle recInMemory e s =
     (let s1 = (if stream s \<noteq> None then StreamReader_close e False s else s);
          s2 = s1\<lparr>recordInMemory := recInMemory\<rparr>;
          s3 = s2\<lparr>stream := handle\<rparr>;
          s4 = (if stream s3 \<noteq> None then s3\<lparr>isRunning := True\<rparr> else s3)
      in (isRunning s4, s4))"

text \<open>
  \<^verbatim>\<open>getNewFrame\<close>. When the stream has stopped, the session closes itself and
  \<^verbatim>\<open>free_frame_data(byref(result))\<close> releases the frame through the address of the
  pointer, which leaves the pointer NULL: the call then returns None, as the comment in
  the source says. The frame returned otherwise is the struct itself.
\<close>

definition getNewFrame :: "env \<Rightarrow> poll \<Rightarrow> StreamReader \<Rightarrow> StreamFrameStruct option \<times> StreamReader" where
  "getNewFrame e p s =
     (if stream s = None \<or> \<not> isRunning s then (None, s)
      else
        (let isRunning' = (case result p of None \<Rightarrow> is_running p | Some f \<Rightarrow> sf_isRunning f)
         in if isRunning' = 0 then (None, StreamReader_close e False s)
            else
              (case result p of
                 None \<Rightarrow> (None, s)
               | Some f \<Rightarrow>
                   (let s1 = (if clipManager s \<and> sf_filename f \<noteq> curFilePath s
                              then
                                (let a = s\<lparr>curFilePath := sf_filename f\<rparr>;
                                     b = addFileToDb e a;
                                     c = b\<lparr>prevFilename := curFilename b\<rparr>;
                                     d = c\<lparr>prevDirPath := curDirPath c\<rparr>;
                                     g = d\<lparr>curFilename := os_path_split_tail (curFilePath d)\<rparr>;
                                     h = g\<lparr>curDirPath :=
                                            lower (os_path_join (locationName g) (take 5 (curFilename g)))\<rparr>
                                 in h\<lparr>curStartMs := sf_ms f\<rparr>)
                              else s);
                        s2 = s1\<lparr>curLastMs := sf_ms f\<rparr>;
                        s3 = finalizeMoverThread False (atFinalize e) s2
                    in (Some f, s3)))))"

subsection \<open>Sessions as sequences of calls\<close>

datatype action =
    Open "nat option" bool env
  | GetNewFrame env poll
  | Close env bool
  | Flush "int option"
  | GetProcSize "int \<times> int"

fun step :: "StreamReader \<Rightarrow> action \<Rightarrow> StreamReader" where
  "step s (Open handle recInMemory e) = snd (StreamReader_open handle recInMemory e s)"
| "step s (GetNewFrame e p) = snd (getNewFrame e p s)"
| "step s (Close e killableCallback) = StreamReader_close e killableCallback s"
| "step s (Flush msNeeded) = flush msNeeded s"
| "step s (GetProcSize native) = snd (getProcSize native s)"

definition run_session :: "StreamReader \<Rightarrow> action list \<Rightarrow> StreamReader" where
  "run_session s acts = foldl step s acts"

section \<open>Stating properties of a ClipReader\<close>

text \<open>
  The references of a \<^verbatim>\<open>ClipReader\<close> are in order when each points into the list of
  readers and no two slots hold the same reader. \<^verbatim>\<open>__init__\<close> establishes this and
  every method keeps it (lemmas \<open>refs_ok_init\<close>, \<open>refs_ok_open\<close>, \<open>refs_ok_seek\<close> and
  the like below).
\<close>

definition valid_ref :: "nat option \<Rightarrow> 'a list \<Rightarrow> bool" where
  "valid_ref ref xs = (case ref of None \<Rightarrow> True | Some i \<Rightarrow> i < length xs)"

definition apart :: "nat option \<Rightarrow> nat option \<Rightarrow> bool" where
  "apart a b = (case a of None \<Rightarrow> True | Some i \<Rightarrow> b \<noteq> Some i)"

definition refs_ok :: "('n, 'x, 'w) ClipReader \<Rightarrow> bool" where
  "refs_ok s =
     (valid_ref (seqReader s) (readers s) \<and> valid_ref (randReader s) (readers s) \<and>
      valid_ref (firstReader s) (readers s) \<and>
      apart (seqReader s) (randReader s) \<and> apart (seqReader s) (firstReader s) \<and>
      apart (randReader s) (firstReader s))"

text \<open>
  The two accessors of the cursor pair, \<^verbatim>\<open>_getSeqReader\<close> and \<^verbatim>\<open>_getRandReader\<close>, as
  requests that can be put in a sequence; \<open>slot\<close> is the attribute an accessor fills
  and \<open>other\<close> is the other accessor.
\<close>

datatype accessor = Sequential | Random

fun access :: "('n, 'x, 'w) videolib \<Rightarrow> ('n, 'x, 'w) ClipReader \<Rightarrow> accessor \<Rightarrow> ('n, 'x, 'w) ClipReader" where
  "access lib s Sequential = snd (getSeqReader lib s)"
| "access lib s Random = snd (getRandReader lib s)"

definition accesses :: "('n, 'x, 'w) videolib \<Rightarrow> ('n, 'x, 'w) ClipReader \<Rightarrow> accessor list \<Rightarrow> ('n, 'x, 'w) ClipReader" where
  "accesses lib s acs = foldl (access lib) s acs"

fun other :: "accessor \<Rightarrow> accessor" where
  "other Sequential = Random"
| "other Random = Sequential"

fun slot :: "accessor \<Rightarrow> ('n, 'x, 'w) ClipReader \<Rightarrow> nat option" where
  "slot Sequential s = seqReader s"
| "slot Random s = randReader s"

text \<open>
  The invariant of the cursor pair once the accessor \<open>a0\<close> has claimed the handle \<open>n0\<close>
  made by \<^verbatim>\<open>open\<close>: the first-reader slot is empty, the slot of \<open>a0\<close> holds \<open>n0\<close>, the
  other slot is either still empty, with no handle allocated since, or holds the one
  handle allocated since, and every handle allocated from \<open>n0\<close> on holds an open clip.
\<close>

definition claimed :: "nat \<Rightarrow> accessor \<Rightarrow> ('n, 'x, 'w) ClipReader \<Rightarrow> bool" where
  "claimed n0 a0 s =
     (firstReader s = None \<and> slot a0 s = Some n0 \<and>
      (slot (other a0) s = None \<and> length (readers s) = Suc n0 \<or>
       slot (other a0) s = Some (Suc n0) \<and> length (readers s) = Suc (Suc n0)) \<and>
      (\<forall>i. n0 \<le> i \<and> i < length (readers s) \<longrightarrow> clip (readers s ! i) \<noteq> None))"

section \<open>A concrete clip for evaluation\<close>

text \<open>
  A stand-in for the native library, used only to evaluate the model at concrete inputs:
  one file, \<^verbatim>\<open>clip.mp4\<close>, with frames at 0, 100 and 200 ms. The native state of an open
  clip is the index of the frame that \<open>get_next_frame\<close> returns next. The world is the
  number of clips the library can still open: each successful open uses one up, and
  with none left \<open>open_clip\<close> fails. \<open>demoClip\<close> starts in a world with room for two
  clips, \<open>demoScarce\<close> in a world with room for one. \<open>demoClip\<close> is
  the clip just opened, \<open>demoPlaying\<close> has read its first frame, \<open>demoBoth\<close> has then
  fetched the frame at 200 ms, \<open>demoLast\<close> has read all three frames and \<open>demoEnd\<close>
  has asked for a fourth.
\<close>

definition demoLib :: "(nat, unit, nat) videolib" where
  "demoLib =
     \<lparr>open_clip = (\<lambda>world p w h t x.
                     if p = Some ''clip.mp4'' \<and> 0 < world then (Some 0, world - 1)
                     else (None, world)),
      get_output_width = (\<lambda>n. 320),
      get_output_height = (\<lambda>n. 240),
      get_input_width = (\<lambda>n. 640),
      get_input_height = (\<lambda>n. 480),
      set_mute_audio = (\<lambda>n m. n),
      clip_has_audio = (\<lambda>n. False),
      get_clip_length = (\<lambda>n. (200, n)),
      get_next_frame = (\<lambda>n. if n < 3 then (Some (100 * int n), Suc n) else (None, n)),
      get_prev_frame = (\<lambda>n. if 2 \<le> n then (Some (100 * int (n - 2)), n - 1) else (None, n)),
      get_next_frame_offset = (\<lambda>n. (if n < 3 then 100 * int n else - 1, n)),
      get_frame_at = (\<lambda>n t. if 0 \<le> t \<and> t \<le> 200
                              then (Some (100 * (t div 100)), Suc (nat (t div 100)))
                              else (None, n)),
      get_ms_list = (\<lambda>n. (Some [0, 100, 200], n)),
      set_output_size = (\<lambda>n w h. n),
      audio_mute = (\<lambda>x. None)\<rparr>"

definition demoClip :: "(nat, unit, nat) ClipReader" where
  "demoClip = snd (ClipReader_open demoLib ''clip.mp4'' 320 240 0 None (ClipReader_init 2))"

definition demoScarce :: "(nat, unit, nat) ClipReader" where
  "demoScarce = snd (ClipReader_open demoLib ''clip.mp4'' 320 240 0 None (ClipReader_init 1))"

definition demoPlaying :: "(nat, unit, nat) ClipReader" where
  "demoPlaying = snd (getNextFrame demoLib demoClip)"

definition demoBoth :: "(nat, unit, nat) ClipReader" where
  "demoBoth = snd (getFrameAt demoLib 200 demoPlaying)"

definition demoLast :: "(nat, unit, nat) ClipReader" where
  "demoLast = snd (getNextFrame demoLib (snd (getNextFrame demoLib demoPlaying)))"

definition demoEnd :: "(nat, unit, nat) ClipReader" where
  "demoEnd = snd (getNextFrame demoLib demoLast)"

section \<open>Reading the trace\<close>

text \<open>
  Projections of a trace used to state what a session did: the number of output
  flushes, the movers started (one per Move Job submission), the commits made to the
  clip index, the paths given to the move-failed callback, and the path of a commit.
\<close>

definition flushes :: "event list \<Rightarrow> nat" where
  "flushes tr = length (filter (\<lambda>ev. ev = FlushOutput) tr)"

fun submissions :: "event list \<Rightarrow> ThreadedFileMover list" where
  "submissions [] = []"
| "submissions (ThreadStart t # es) = t # submissions es"
| "submissions (ev # es) = submissions es"

fun commits :: "event list \<Rightarrow> event list" where
  "commits [] = []"
| "commits (AddClip p l a b q w h # es) = AddClip p l a b q w h # commits es"
| "commits (ev # es) = commits es"

fun callbacks :: "event list \<Rightarrow> string list" where
  "callbacks [] = []"
| "callbacks (MoveFailed p # es) = p # callbacks es"
| "callbacks (ev # es) = callbacks es"

fun committedPath :: "event \<Rightarrow> string option" where
  "committedPath (AddClip p l a b q w h) = Some p"
| "committedPath ev = None"

section \<open>Stating properties of the mover\<close>

text \<open>
  The life of a Move Job as it shows in the trace. From \<open>Idle\<close> a mover can be started;
  the job is then in flight, first \<open>Relocating\<close> until its relocation is attempted and
  then \<open>Relocated\<close> until its commit to the clip index, which must be the commit of that
  very mover and brings the phase back to \<open>Idle\<close>. \<open>mover_step\<close> is None where an
  event comes in the wrong phase: a mover started while another job is in flight, a
  relocation without a started mover, or a commit before the relocation. A trace keeps
  one mover in flight when it can be walked from \<open>Idle\<close> without such an event.
  \<open>busy\<close> is the number of jobs in flight in a phase.
\<close>

datatype mover_phase = Idle | Relocating ThreadedFileMover | Relocated ThreadedFileMover

fun mover_step :: "mover_phase \<Rightarrow> event \<Rightarrow> mover_phase option" where
  "mover_step ph (ThreadStart t) = (case ph of Idle \<Rightarrow> Some (Relocating t) | _ \<Rightarrow> None)"
| "mover_step ph (MoveRecordedFile src dst ok) =
     (case ph of Relocating t \<Rightarrow> Some (Relocated t) | _ \<Rightarrow> None)"
| "mover_step ph (ShutilMove src dst ok) =
     (case ph of Relocating t \<Rightarrow> Some (Relocated t) | _ \<Rightarrow> None)"
| "mover_step ph (AddClip p l a b q w h) =
     (case ph of
        Relocated t \<Rightarrow>
          if AddClip p l a b q w h = ThreadedFileMover_addFileToDb t then Some Idle else None
      | _ \<Rightarrow> None)"
| "mover_step ph ev = Some ph"

fun mover_phases :: "mover_phase \<Rightarrow> event list \<Rightarrow> mover_phase option" where
  "mover_phases ph [] = Some ph"
| "mover_phases ph (ev # es) =
     (case mover_step ph ev of None \<Rightarrow> None | Some ph' \<Rightarrow> mover_phases ph' es)"

definition one_in_flight :: "event list \<Rightarrow> bool" where
  "one_in_flight tr = (mover_phases Idle tr \<noteq> None)"

fun busy :: "mover_phase \<Rightarrow> nat" where
  "busy Idle = 0"
| "busy ph = 1"

text \<open>
  The invariant of a session that carries the proofs: the trace has been walked to the
  phase that the mover slot shows, a mover in the slot has a file name and a clip manager
  (so its \<^verbatim>\<open>run\<close> does attempt the relocation), and the commits made so far are those of
  the movers started, in order, except for the one still in the slot.
\<close>

definition pending :: "StreamReader \<Rightarrow> ThreadedFileMover list" where
  "pending s = (case moverThread s of None \<Rightarrow> [] | Some t \<Rightarrow> [t])"

definition mover_inv :: "StreamReader \<Rightarrow> bool" where
  "mover_inv s =
     ((case moverThread s of
         None \<Rightarrow> mover_phases Idle (trace s) = Some Idle
       | Some t \<Rightarrow> mover_phases Idle (trace s) = Some (Relocating t) \<and>
                   mv_curFilename t \<noteq> [] \<and> mv_clipManager t) \<and>
      map ThreadedFileMover_addFileToDb (submissions (trace s)) =
        commits (trace s) @ map ThreadedFileMover_addFileToDb (pending s))"

section \<open>Stating properties of the segment tracker\<close>

text \<open>
  What the specification says of segments, written over the frames a session delivered.
  A segment is a file name with the timestamps of its first and last frame. \<open>track\<close>
  follows the delivered frames, newest segment first: a frame with the file name of the
  current segment extends it, any other frame begins a new one. \<open>transitions\<close> counts
  the places where the file name differs from the one before. \<open>pollAll\<close> polls a
  session once per entry and collects the frames that \<^verbatim>\<open>getNewFrame\<close> returned.
  \<open>span\<close> reads the segment a mover carries and \<open>stored\<close> is a tracked segment with
  the file name reduced to its last component, as the session stores it.
\<close>

type_synonym segment = "string \<times> int \<times> int"

fun track :: "segment list \<Rightarrow> StreamFrameStruct \<Rightarrow> segment list" where
  "track [] f = [(sf_filename f, sf_ms f, sf_ms f)]"
| "track ((n, a, b) # older) f =
     (if sf_filename f = n then (n, a, sf_ms f) # older
      else (sf_filename f, sf_ms f, sf_ms f) # (n, a, b) # older)"

definition segments :: "StreamFrameStruct list \<Rightarrow> segment list" where
  "segments fs = rev (foldl track [] fs)"

fun transitions :: "string list \<Rightarrow> nat" where
  "transitions (a # b # xs) = (if a \<noteq> b then 1 else 0) + transitions (b # xs)"
| "transitions xs = 0"

fun pollAll :: "StreamReader \<Rightarrow> (env \<times> poll) list \<Rightarrow> StreamFrameStruct list \<times> StreamReader" where
  "pollAll s [] = ([], s)"
| "pollAll s ((e, p) # ps) =
     (case getNewFrame e p s of
        (r, s') \<Rightarrow>
          (case pollAll s' ps of
             (fs, s'') \<Rightarrow> ((case r of None \<Rightarrow> fs | Some f \<Rightarrow> f # fs), s'')))"

definition span :: "ThreadedFileMover \<Rightarrow> segment" where
  "span t = (mv_curFilename t, mv_curStartMs t, mv_curLastMs t)"

definition stored :: "segment \<Rightarrow> segment" where
  "stored g = (os_path_split_tail (fst g), snd g)"

text \<open>
  The invariant of the polling loop: while the session runs, its current-file attributes
  are those of the newest tracked segment and the movers started so far carry the older
  segments; once it is closed, the movers started carry all of them.
\<close>

definition tracking :: "segment list \<Rightarrow> StreamReader \<Rightarrow> bool" where
  "tracking segs s =
     (if stream s \<noteq> None \<and> isRunning s
      then clipManager s \<and>
           (case segs of
              [] \<Rightarrow> curFilePath s = [] \<and> curFilename s = [] \<and> submissions (trace s) = []
            | g # older \<Rightarrow>
                curFilePath s = fst g \<and> curFilename s = os_path_split_tail (fst g) \<and>
                curFilename s \<noteq> [] \<and> curStartMs s = fst (snd g) \<and> curLastMs s = snd (snd g) \<and>
                map span (submissions (trace s)) = map stored (rev older))
      else stream s = None \<and> curFilename s = [] \<and>
           map span (submissions (trace s)) = map stored (rev segs))"

section \<open>Concrete sessions for evaluation\<close>

text \<open>
  A camera session with a clip manager and a move-failed callback, an environment in
  which every mover thread has finished and every relocation succeeds, one in which the
  relocation seen at the end of the call fails, and a poll that delivers a frame while
  the stream runs.
\<close>

definition cam :: StreamReader where
  "cam = StreamReader_init ''cam'' True ''/rec/cam/'' ''/store/'' True"

definition envOk :: env where
  "envOk = \<lparr>atSubmit = \<lparr>alive = False, moved = True\<rparr>,
            atFinalize = \<lparr>alive = False, moved = True\<rparr>,
            nativeProcSize = (320, 240)\<rparr>"

definition envFail :: env where
  "envFail = \<lparr>atSubmit = \<lparr>alive = False, moved = True\<rparr>,
              atFinalize = \<lparr>alive = True, moved = False\<rparr>,
              nativeProcSize = (320, 240)\<rparr>"

definition frameAt :: "int \<Rightarrow> string \<Rightarrow> poll" where
  "frameAt t name' =
     \<lparr>result = Some \<lparr>sf_ms = t, sf_filename = name', sf_isRunning = 1\<rparr>, is_running = 1\<rparr>"

definition camOpen :: StreamReader where
  "camOpen = snd (StreamReader_open (Some 7) False envOk cam)"

definition s100 :: StreamReader where
  "s100 = snd (getNewFrame envOk (frameAt 100 ''/rec/cam/Clip001.mp4'') camOpen)"

text \<open>
  The scenario of the specification: frames of \<^verbatim>\<open>segA\<close> at 0, 100 and 200 ms, then a
  frame of \<^verbatim>\<open>segB\<close> at 300 ms, polled while the mover thread is still alive at the end
  of each call (\<open>envBusy\<close>). \<open>camPending\<close> is the session after these polls, with the
  mover \<open>segA\<close> in its slot. \<open>camFailed\<close> is a session closed after one frame of
  \<^verbatim>\<open>clip001.mp4\<close> when the relocation fails.
\<close>

definition envBusy :: env where
  "envBusy = \<lparr>atSubmit = \<lparr>alive = True, moved = True\<rparr>,
              atFinalize = \<lparr>alive = True, moved = True\<rparr>,
              nativeProcSize = (320, 240)\<rparr>"

definition demoPolls :: "action list" where
  "demoPolls =
     [Open (Some 7) False envOk,
      GetNewFrame envBusy (frameAt 0 ''/rec/cam/segA.mp4''),
      GetNewFrame envBusy (frameAt 100 ''/rec/cam/segA.mp4''),
      GetNewFrame envBusy (frameAt 200 ''/rec/cam/segA.mp4''),
      GetNewFrame envBusy (frameAt 300 ''/rec/cam/segB.mp4'')]"

definition camPending :: StreamReader where
  "camPending = run_session cam demoPolls"

definition segA :: ThreadedFileMover where
  "segA = \<lparr>mv_curFilename = ''segA.mp4'', mv_storageDir = ''/store/'',
           mv_curDirPath = ''cam/sega.'', mv_recordDir = ''/rec/cam/'',
           mv_prevDirPath = [], mv_prevFilename = [], mv_procSize = (320, 240),
           mv_curStartMs = 0, mv_curLastMs = 200, mv_recordInMemory = False,
           mv_clipManager = True, mv_moveFailedFn = True, mv_locationName = ''cam''\<rparr>"

definition segPolls :: "(env \<times> poll) list" where
  "segPolls =
     [(envBusy, frameAt 0 ''/rec/cam/segA.mp4''),
      (envBusy, frameAt 100 ''/rec/cam/segA.mp4''),
      (envBusy, frameAt 200 ''/rec/cam/segA.mp4''),
      (envBusy, frameAt 300 ''/rec/cam/segB.mp4'')]"

definition segFrames :: "StreamFrameStruct list" where
  "segFrames =
     [\<lparr>sf_ms = 0, sf_filename = ''/rec/cam/segA.mp4'', sf_isRunning = 1\<rparr>,
      \<lparr>sf_ms = 100, sf_filename = ''/rec/cam/segA.mp4'', sf_isRunning = 1\<rparr>,
      \<lparr>sf_ms = 200, sf_filename = ''/rec/cam/segA.mp4'', sf_isRunning = 1\<rparr>,
      \<lparr>sf_ms = 300, sf_filename = ''/rec/cam/segB.mp4'', sf_isRunning = 1\<rparr>]"

text \<open>
  Polls in which the adapter reports, between two files, a name with no last component
  (the recording directory itself).
\<close>

definition gapPolls :: "(env \<times> poll) list" where
  "gapPolls =
     [(envOk, frameAt 0 ''/rec/cam/a.mp4''),
      (envOk, frameAt 100 ''/rec/cam/''),
      (envOk, frameAt 200 ''/rec/cam/b.mp4'')]"

definition camFailed :: StreamReader where
  "camFailed = StreamReader_close envFail False
                 (snd (getNewFrame envOk (frameAt 0 ''/rec/cam/clip001.mp4'') camOpen))"

section \<open>Properties\<close>

subsection \<open>Basic facts about the ClipReader's steps\<close>

lemma onReader_keeps [simp]:
  "seqReader (snd (onReader i f s)) = seqReader s"
  "randReader (snd (onReader i f s)) = randReader s"
  "firstReader (snd (onReader i f s)) = firstReader s"
  "path (snd (onReader i f s)) = path s"
  "width (snd (onReader i f s)) = width s"
  "height (snd (onReader i f s)) = height s"
  "firstMs (snd (onReader i f s)) = firstMs s"
  "extras (snd (onReader i f s)) = extras s"
  "prevMs (snd (onReader i f s)) = prevMs s"
  "readerPrevMs (snd (onReader i f s)) = readerPrevMs s"
  "isDone (snd (onReader i f s)) = isDone s"
  "duration (snd (onReader i f s)) = duration s"
  "msList (snd (onReader i f s)) = msList s"
  "length (readers (snd (onReader i f s))) = length (readers s)"
  by (simp_all add: onReader_def split: prod.splits)

lemma onReader_other:
  "j \<noteq> i \<Longrightarrow> readers (snd (onReader i f s)) ! j = readers s ! j"
  by (simp add: onReader_def split: prod.splits)

lemma allocReader_keeps [simp]:
  "seqReader (snd (allocReader lib s)) = seqReader s"
  "randReader (snd (allocReader lib s)) = randReader s"
  "firstReader (snd (allocReader lib s)) = firstReader s"
  "path (snd (allocReader lib s)) = path s"
  "width (snd (allocReader lib s)) = width s"
  "height (snd (allocReader lib s)) = height s"
  "firstMs (snd (allocReader lib s)) = firstMs s"
  "extras (snd (allocReader lib s)) = extras s"
  "prevMs (snd (allocReader lib s)) = prevMs s"
  "readerPrevMs (snd (allocReader lib s)) = readerPrevMs s"
  "isDone (snd (allocReader lib s)) = isDone s"
  "duration (snd (allocReader lib s)) = duration s"
  "msList (snd (allocReader lib s)) = msList s"
  by (simp_all add: allocReader_def split: prod.splits)

lemma getSeqReader_keeps [simp]:
  "randReader (snd (getSeqReader lib s)) = randReader s"
  "path (snd (getSeqReader lib s)) = path s"
  "width (snd (getSeqReader lib s)) = width s"
  "height (snd (getSeqReader lib s)) = height s"
  "firstMs (snd (getSeqReader lib s)) = firstMs s"
  "extras (snd (getSeqReader lib s)) = extras s"
  "prevMs (snd (getSeqReader lib s)) = prevMs s"
  "readerPrevMs (snd (getSeqReader lib s)) = readerPrevMs s"
  "isDone (snd (getSeqReader lib s)) = isDone s"
  "duration (snd (getSeqReader lib s)) = duration s"
  "msList (snd (getSeqReader lib s)) = msList s"
  "fst (getSeqReader lib s) = seqReader (snd (getSeqReader lib s))"
  by (simp_all add: getSeqReader_def Let_def split_beta)

lemma getRandReader_keeps [simp]:
  "seqReader (snd (getRandReader lib s)) = seqReader s"
  "path (snd (getRandReader lib s)) = path s"
  "width (snd (getRandReader lib s)) = width s"
  "height (snd (getRandReader lib s)) = height s"
  "firstMs (snd (getRandReader lib s)) = firstMs s"
  "extras (snd (getRandReader lib s)) = extras s"
  "prevMs (snd (getRandReader lib s)) = prevMs s"
  "readerPrevMs (snd (getRandReader lib s)) = readerPrevMs s"
  "isDone (snd (getRandReader lib s)) = isDone s"
  "duration (snd (getRandReader lib s)) = duration s"
  "msList (snd (getRandReader lib s)) = msList s"
  "fst (getRandReader lib s) = randReader (snd (getRandReader lib s))"
  by (simp_all add: getRandReader_def Let_def split_beta)

lemma seek_isDone [simp]: "isDone (snd (seek lib t s)) = isDone s"
  by (simp add: seek_def split_beta split: option.splits)

lemma seek_keeps [simp]:
  "randReader (snd (seek lib t s)) = randReader s"
  "duration (snd (seek lib t s)) = duration s"
  "msList (snd (seek lib t s)) = msList s"
  by (simp_all add: seek_def split_beta split: option.splits)

lemma getNextFrame_isDone: "isDone s \<Longrightarrow> isDone (snd (getNextFrame lib s))"
  by (simp add: getNextFrame_def Let_def split_beta split: option.splits)

lemma getNextFrame_eos:
  "seqReader (snd (getNextFrame lib s)) \<noteq> None \<Longrightarrow> fst (getNextFrame lib s) = None \<Longrightarrow>
   isDone (snd (getNextFrame lib s)) \<and> prevMs (snd (getNextFrame lib s)) = - 1
   \<and> readerPrevMs (snd (getNextFrame lib s)) = - 1"
  by (auto simp: getNextFrame_def Let_def split_beta split: option.splits if_splits)

lemma getPrevFrame_isDone:
  "fst (getPrevFrame lib s) = None \<Longrightarrow> isDone (snd (getPrevFrame lib s)) = isDone s"
  "fst (getPrevFrame lib s) \<noteq> None \<Longrightarrow> \<not> isDone (snd (getPrevFrame lib s))"
  by (auto simp: getPrevFrame_def Let_def split_beta split: option.splits if_splits)

lemma other_isDone:
  "isDone (snd (getFrameAt lib t s)) = isDone s"
  "isDone (snd (getDuration lib s)) = isDone s"
  "isDone (snd (getMsList lib s)) = isDone s"
  "isDone (snd (getNextFrameOffset lib s)) = isDone s"
  "isDone (setMute lib m s) = isDone s"
  by (simp_all add: getFrameAt_def getDuration_def getMsList_def getNextFrameOffset_def
      setMute_def Let_def split_beta split: option.splits)

lemma reset_isDone:
  "\<not> isDone (ClipReader_close s)"
  "\<not> isDone (snd (ClipReader_open lib f w h t x s))"
  by (simp_all add: ClipReader_close_def ClipReader_reset_def ClipReader_open_def Let_def split_beta)

lemma FfMpeg_open_clip:
  "clip (snd (fst (FfMpeg_open lib f w h t x world r))) \<noteq> None
     = fst (fst (FfMpeg_open lib f w h t x world r))"
  "fst (fst (FfMpeg_open lib f w h t x world r)) = (fst (open_clip lib world f w h t x) \<noteq> None)"
  by (auto simp: FfMpeg_open_def Let_def FfMpeg_setMute_def split_beta split: option.splits)

lemma allocReader_cases:
  "fst (allocReader lib s) = None \<or> fst (allocReader lib s) = Some (length (readers s))"
  "fst (allocReader lib s) = None \<Longrightarrow> readers (snd (allocReader lib s)) = readers s"
  "fst (allocReader lib s) \<noteq> None \<Longrightarrow>
     length (readers (snd (allocReader lib s))) = Suc (length (readers s)) \<and>
     clip (readers (snd (allocReader lib s)) ! length (readers s)) \<noteq> None \<and>
     (\<forall>i<length (readers s). readers (snd (allocReader lib s)) ! i = readers s ! i)"
  "(fst (allocReader lib s) \<noteq> None) =
     (fst (open_clip lib (nativeWorld s) (path s) (width s) (height s) (firstMs s) (extras s)) \<noteq> None)"
  using FfMpeg_open_clip [of lib "path s" "width s" "height s" "firstMs s" "extras s" "nativeWorld s"
      FfMpegClipReader_init]
  by (auto simp: allocReader_def split_beta nth_append)

lemma FfMpeg_getFrameAt_moves:
  "clip (snd (FfMpeg_getFrameAt lib t r)) =
     (case clip r of None \<Rightarrow> None | Some n \<Rightarrow> Some (snd (get_frame_at lib n t)))"
  "fst (FfMpeg_getFrameAt lib t r) =
     (case clip r of None \<Rightarrow> None
      | Some n \<Rightarrow> (case fst (get_frame_at lib n t) of None \<Rightarrow> None | Some t' \<Rightarrow> Some (mkFrame r t')))"
  by (simp_all add: FfMpeg_getFrameAt_def split_beta split: option.splits)

subsection \<open>The references stay in order\<close>

lemma refs_ok_init: "refs_ok (ClipReader_init world)"
  by (simp add: refs_ok_def ClipReader_init_def valid_ref_def apart_def)

lemma refs_ok_onReader: "refs_ok s \<Longrightarrow> refs_ok (snd (onReader i f s))"
  by (simp add: refs_ok_def valid_ref_def split: option.splits)

lemma refs_ok_update [simp]:
  "refs_ok (s\<lparr>prevMs := a\<rparr>) = refs_ok s"
  "refs_ok (s\<lparr>readerPrevMs := a\<rparr>) = refs_ok s"
  "refs_ok (s\<lparr>isDone := b\<rparr>) = refs_ok s"
  "refs_ok (s\<lparr>duration := d\<rparr>) = refs_ok s"
  "refs_ok (s\<lparr>msList := l\<rparr>) = refs_ok s"
  by (simp_all add: refs_ok_def)

lemma refs_ok_close: "refs_ok (ClipReader_close s)"
  by (simp add: refs_ok_def ClipReader_close_def ClipReader_reset_def valid_ref_def apart_def)

lemma refs_ok_getSeqReader: "refs_ok s \<Longrightarrow> refs_ok (snd (getSeqReader lib s))"
  by (auto simp: refs_ok_def getSeqReader_def allocReader_def Let_def split_beta valid_ref_def apart_def
      split: option.splits)

lemma refs_ok_getRandReader: "refs_ok s \<Longrightarrow> refs_ok (snd (getRandReader lib s))"
  by (auto simp: refs_ok_def getRandReader_def allocReader_def Let_def split_beta valid_ref_def apart_def
      split: option.splits)

lemma refs_ok_open: "refs_ok (snd (ClipReader_open lib f w h t x s))"
  by (auto simp: refs_ok_def ClipReader_open_def ClipReader_close_def ClipReader_reset_def
      allocReader_def Let_def split_beta valid_ref_def apart_def closeReader_def split: option.splits)

lemma refs_ok_seek: "refs_ok s \<Longrightarrow> refs_ok (snd (seek lib t s))"
  using refs_ok_onReader [of "snd (getSeqReader lib s)"] refs_ok_getSeqReader [of s lib]
  by (auto simp: seek_def split_beta split: option.splits)

lemma refs_ok_getFrameAt: "refs_ok s \<Longrightarrow> refs_ok (snd (getFrameAt lib t s))"
  using refs_ok_onReader [of "snd (getRandReader lib s)"] refs_ok_getRandReader [of s lib]
  by (auto simp: getFrameAt_def split_beta split: option.splits)

lemma refs_ok_getNextFrame: "refs_ok s \<Longrightarrow> refs_ok (snd (getNextFrame lib s))"
proof -
  assume a: "refs_ok s"
  let ?s0 = "if readerPrevMs s \<noteq> prevMs s then snd (seek lib (prevMs s) s) else s"
  have "refs_ok ?s0" using a by (simp add: refs_ok_seek)
  then show ?thesis
    using refs_ok_onReader [of "snd (getSeqReader lib ?s0)"] refs_ok_getSeqReader [of ?s0 lib]
    by (auto simp: getNextFrame_def Let_def split_beta split: option.splits)
qed

lemma refs_ok_getPrevFrame: "refs_ok s \<Longrightarrow> refs_ok (snd (getPrevFrame lib s))"
proof -
  assume a: "refs_ok s"
  let ?s0 = "if readerPrevMs s \<noteq> prevMs s then snd (seek lib (prevMs s) s) else s"
  have "refs_ok ?s0" using a by (simp add: refs_ok_seek)
  then show ?thesis
    using refs_ok_onReader [of "snd (getSeqReader lib ?s0)"] refs_ok_getSeqReader [of ?s0 lib]
    by (auto simp: getPrevFrame_def Let_def split_beta split: option.splits)
qed

lemma refs_ok_getDuration: "refs_ok s \<Longrightarrow> refs_ok (snd (getDuration lib s))"
  using refs_ok_onReader [of s]
  by (auto simp: getDuration_def split_beta split: option.splits)

lemma refs_ok_getMsList: "refs_ok s \<Longrightarrow> refs_ok (snd (getMsList lib s))"
  using refs_ok_onReader [of "snd (getRandReader lib s)"] refs_ok_getRandReader [of s lib]
  by (auto simp: getMsList_def split_beta split: option.splits)

lemma refs_ok_getNextFrameOffset: "refs_ok s \<Longrightarrow> refs_ok (snd (getNextFrameOffset lib s))"
  using refs_ok_onReader [of "snd (getSeqReader lib s)"] refs_ok_getSeqReader [of s lib]
  by (auto simp: getNextFrameOffset_def split_beta split: option.splits)

lemma refs_ok_setMute: "refs_ok s \<Longrightarrow> refs_ok (setMute lib m s)"
  by (auto simp: setMute_def Let_def refs_ok_def valid_ref_def split: option.splits)

lemma getRandReader_seq_object:
  assumes "refs_ok s" and "seqReader s = Some i"
  shows "randReader (snd (getRandReader lib s)) \<noteq> Some i"
    and "readers (snd (getRandReader lib s)) ! i = readers s ! i"
  using assms
  by (auto simp: refs_ok_def getRandReader_def allocReader_def Let_def split_beta valid_ref_def
      apart_def nth_append split: option.splits)

lemma getSeqReader_rand_object:
  assumes "refs_ok s" and "randReader s = Some j"
  shows "seqReader (snd (getSeqReader lib s)) \<noteq> Some j"
    and "readers (snd (getSeqReader lib s)) ! j = readers s ! j"
  using assms
  by (auto simp: refs_ok_def getSeqReader_def allocReader_def Let_def split_beta valid_ref_def
      apart_def nth_append split: option.splits)

subsection \<open>Which cursor seek and getFrameAt use\<close>

text \<open>
  C2 as stated fails for \<^verbatim>\<open>seek\<close>, which works on the sequential reader ("Move the
  sequential file pointer", says its docstring): on the clip just opened it claims the
  first reader as the sequential one and moves it, and on a clip being played it moves
  the sequential reader from frame 1 to the end; the random slot stays empty.
\<close>

theorem seek_moves_sequential_counterexample:
  "seqReader demoClip = None \<and> map clip (readers demoClip) = [Some 0]
   \<and> seqReader (snd (seek demoLib 100 demoClip)) = Some 0
   \<and> randReader (snd (seek demoLib 100 demoClip)) = None
   \<and> map clip (readers (snd (seek demoLib 100 demoClip))) = [Some 2]
   \<and> seqReader demoPlaying = Some 0 \<and> map clip (readers demoPlaying) = [Some 1]
   \<and> seqReader (snd (seek demoLib 200 demoPlaying)) = Some 0
   \<and> randReader (snd (seek demoLib 200 demoPlaying)) = None
   \<and> map clip (readers (snd (seek demoLib 200 demoPlaying))) = [Some 3]"
  by code_simp

lemma seek_on_sequential:
  assumes "refs_ok s"
  shows "seqReader (snd (seek lib t s)) =
           (if seqReader s \<noteq> None then seqReader s
            else if firstReader s \<noteq> None then firstReader s
            else fst (allocReader lib s))"
    and "firstReader (snd (seek lib t s)) = (if seqReader s = None then None else firstReader s)"
    and "case seqReader (snd (seek lib t s)) of
           None \<Rightarrow> fst (seek lib t s) = None
         | Some i \<Rightarrow>
             fst (seek lib t s) =
               fst (FfMpeg_seek lib t
                     (readers (if seqReader s = None \<and> firstReader s = None
                               then snd (allocReader lib s) else s) ! i))
             \<and> readers (snd (seek lib t s)) ! i =
                 snd (FfMpeg_seek lib t
                       (readers (if seqReader s = None \<and> firstReader s = None
                                 then snd (allocReader lib s) else s) ! i))"
    and "case seqReader (snd (seek lib t s)) of
           None \<Rightarrow> prevMs (snd (seek lib t s)) = prevMs s
                    \<and> readerPrevMs (snd (seek lib t s)) = readerPrevMs s
         | Some i \<Rightarrow>
             (case fst (seek lib t s) of
                None \<Rightarrow> prevMs (snd (seek lib t s)) = - 1 \<and> readerPrevMs (snd (seek lib t s)) = - 1
              | Some fr \<Rightarrow> prevMs (snd (seek lib t s)) = ms fr
                          \<and> readerPrevMs (snd (seek lib t s)) = ms fr)"
proof -
  let ?g = "snd (getSeqReader lib s)"
  let ?base = "if seqReader s = None \<and> firstReader s = None then snd (allocReader lib s) else s"
  have g1: "seqReader ?g =
           (if seqReader s \<noteq> None then seqReader s
            else if firstReader s \<noteq> None then firstReader s
            else fst (allocReader lib s))"
    by (simp add: getSeqReader_def Let_def split_beta)
  have g2: "firstReader ?g = (if seqReader s = None then None else firstReader s)"
    by (simp add: getSeqReader_def Let_def split_beta)
  have g3: "readers ?g = readers ?base"
    by (simp add: getSeqReader_def Let_def split_beta)
  have ok: "refs_ok ?g" using assms by (rule refs_ok_getSeqReader)
  show "seqReader (snd (seek lib t s)) =
           (if seqReader s \<noteq> None then seqReader s
            else if firstReader s \<noteq> None then firstReader s
            else fst (allocReader lib s))"
    using g1 by (simp add: seek_def split_beta split: option.splits)
  show "firstReader (snd (seek lib t s)) = (if seqReader s = None then None else firstReader s)"
    using g2 by (simp add: seek_def split_beta split: option.splits)
  show "case seqReader (snd (seek lib t s)) of
           None \<Rightarrow> fst (seek lib t s) = None
         | Some i \<Rightarrow>
             fst (seek lib t s) = fst (FfMpeg_seek lib t (readers ?base ! i))
             \<and> readers (snd (seek lib t s)) ! i = snd (FfMpeg_seek lib t (readers ?base ! i))"
  proof (cases "seqReader ?g")
    case None
    then show ?thesis
      by (simp add: seek_def split_beta)
  next
    case (Some i)
    with ok have "i < length (readers ?g)"
      by (simp add: refs_ok_def valid_ref_def)
    with Some show ?thesis
      unfolding g3 [symmetric]
      by (simp add: seek_def split_beta onReader_def split: option.splits)
  qed
  show "case seqReader (snd (seek lib t s)) of
           None \<Rightarrow> prevMs (snd (seek lib t s)) = prevMs s
                    \<and> readerPrevMs (snd (seek lib t s)) = readerPrevMs s
         | Some i \<Rightarrow>
             (case fst (seek lib t s) of
                None \<Rightarrow> prevMs (snd (seek lib t s)) = - 1 \<and> readerPrevMs (snd (seek lib t s)) = - 1
              | Some fr \<Rightarrow> prevMs (snd (seek lib t s)) = ms fr
                          \<and> readerPrevMs (snd (seek lib t s)) = ms fr)"
    by (simp add: seek_def split_beta split: option.splits)
qed

lemma getFrameAt_on_random:
  assumes "refs_ok s"
  shows "randReader (snd (getFrameAt lib t s)) =
           (if randReader s \<noteq> None then randReader s
            else if firstReader s \<noteq> None then firstReader s
            else fst (allocReader lib s))"
    and "firstReader (snd (getFrameAt lib t s)) = (if randReader s = None then None else firstReader s)"
    and "case randReader (snd (getFrameAt lib t s)) of
           None \<Rightarrow> fst (getFrameAt lib t s) = None
         | Some i \<Rightarrow>
             fst (getFrameAt lib t s) =
               fst (FfMpeg_getFrameAt lib t
                     (readers (if randReader s = None \<and> firstReader s = None
                               then snd (allocReader lib s) else s) ! i))
             \<and> readers (snd (getFrameAt lib t s)) ! i =
                 snd (FfMpeg_getFrameAt lib t
                       (readers (if randReader s = None \<and> firstReader s = None
                                 then snd (allocReader lib s) else s) ! i))"
proof -
  let ?g = "snd (getRandReader lib s)"
  let ?base = "if randReader s = None \<and> firstReader s = None then snd (allocReader lib s) else s"
  have g1: "randReader ?g =
           (if randReader s \<noteq> None then randReader s
            else if firstReader s \<noteq> None then firstReader s
            else fst (allocReader lib s))"
    by (simp add: getRandReader_def Let_def split_beta)
  have g2: "firstReader ?g = (if randReader s = None then None else firstReader s)"
    by (simp add: getRandReader_def Let_def split_beta)
  have g3: "readers ?g = readers ?base"
    by (simp add: getRandReader_def Let_def split_beta)
  have ok: "refs_ok ?g" using assms by (rule refs_ok_getRandReader)
  show "randReader (snd (getFrameAt lib t s)) =
           (if randReader s \<noteq> None then randReader s
            else if firstReader s \<noteq> None then firstReader s
            else fst (allocReader lib s))"
    using g1 by (simp add: getFrameAt_def split_beta split: option.splits)
  show "firstReader (snd (getFrameAt lib t s)) = (if randReader s = None then None else firstReader s)"
    using g2 by (simp add: getFrameAt_def split_beta split: option.splits)
  show "case randReader (snd (getFrameAt lib t s)) of
           None \<Rightarrow> fst (getFrameAt lib t s) = None
         | Some i \<Rightarrow>
             fst (getFrameAt lib t s) = fst (FfMpeg_getFrameAt lib t (readers ?base ! i))
             \<and> readers (snd (getFrameAt lib t s)) ! i = snd (FfMpeg_getFrameAt lib t (readers ?base ! i))"
  proof (cases "randReader ?g")
    case None
    then show ?thesis
      by (simp add: getFrameAt_def split_beta)
  next
    case (Some i)
    with ok have "i < length (readers ?g)"
      by (simp add: refs_ok_def valid_ref_def)
    with Some show ?thesis
      unfolding g3 [symmetric]
      by (simp add: getFrameAt_def split_beta onReader_def split: option.splits)
  qed
qed

text \<open>
  C2, amended. \<^verbatim>\<open>getFrameAt\<close> works on the random cursor and \<^verbatim>\<open>seek\<close> on the
  sequential one. Each takes the reader of its own mode, claiming the first reader when
  its slot is empty and allocating a reader when there is no first reader either, calls
  \<^verbatim>\<open>getFrameAt\<close> (for \<^verbatim>\<open>seek\<close>: \<^verbatim>\<open>seek\<close>) on that reader, returns the frame the
  reader returns and leaves the reader where the library's \<open>get_frame_at\<close> left it;
  \<^verbatim>\<open>seek\<close> also sets \<^verbatim>\<open>prevMs\<close> and \<^verbatim>\<open>_readerPrevMs\<close> to the frame's time, or to -1
  when the reader returns none. \<^verbatim>\<open>getFrameAt\<close> leaves the sequential slot and the
  reader in it as they were, and allocates at most the random reader; \<^verbatim>\<open>seek\<close> leaves
  the random slot and the reader in it as they were.
\<close>

theorem cursors_kept_apart:
  assumes "refs_ok s"
  shows "seqReader (snd (getFrameAt lib t s)) = seqReader s
     \<and> (case seqReader s of None \<Rightarrow> True
         | Some i \<Rightarrow> readers (snd (getFrameAt lib t s)) ! i = readers s ! i)
     \<and> length (readers (snd (getFrameAt lib t s))) =
         length (readers s) + (if randReader s = None \<and> firstReader s = None
                                 \<and> randReader (snd (getFrameAt lib t s)) \<noteq> None then 1 else 0)
     \<and> randReader (snd (seek lib t s)) = randReader s
     \<and> (case randReader s of None \<Rightarrow> True
         | Some j \<Rightarrow> readers (snd (seek lib t s)) ! j = readers s ! j)
     \<and> (fst (seek lib t s) \<noteq> None \<longrightarrow> seqReader (snd (seek lib t s)) \<noteq> None)
     \<and> seqReader (snd (seek lib t s)) =
           (if seqReader s \<noteq> None then seqReader s
            else if firstReader s \<noteq> None then firstReader s
            else fst (allocReader lib s))
     \<and> firstReader (snd (seek lib t s)) = (if seqReader s = None then None else firstReader s)
     \<and> (case seqReader (snd (seek lib t s)) of
           None \<Rightarrow> fst (seek lib t s) = None
         | Some i \<Rightarrow>
             fst (seek lib t s) =
               fst (FfMpeg_seek lib t
                     (readers (if seqReader s = None \<and> firstReader s = None
                               then snd (allocReader lib s) else s) ! i))
             \<and> readers (snd (seek lib t s)) ! i =
                 snd (FfMpeg_seek lib t
                       (readers (if seqReader s = None \<and> firstReader s = None
                                 then snd (allocReader lib s) else s) ! i)))
     \<and> (case seqReader (snd (seek lib t s)) of
           None \<Rightarrow> True
         | Some i \<Rightarrow>
             clip (readers (snd (seek lib t s)) ! i) =
               (case clip (readers (if seqReader s = None \<and> firstReader s = None
                                    then snd (allocReader lib s) else s) ! i) of
                  None \<Rightarrow> None
                | Some n \<Rightarrow> Some (snd (get_frame_at lib n t))))
     \<and> (case seqReader (snd (seek lib t s)) of
           None \<Rightarrow> prevMs (snd (seek lib t s)) = prevMs s
                    \<and> readerPrevMs (snd (seek lib t s)) = readerPrevMs s
         | Some i \<Rightarrow>
             (case fst (seek lib t s) of
                None \<Rightarrow> prevMs (snd (seek lib t s)) = - 1 \<and> readerPrevMs (snd (seek lib t s)) = - 1
              | Some fr \<Rightarrow> prevMs (snd (seek lib t s)) = ms fr
                          \<and> readerPrevMs (snd (seek lib t s)) = ms fr))
     \<and> randReader (snd (getFrameAt lib t s)) =
           (if randReader s \<noteq> None then randReader s
            else if firstReader s \<noteq> None then firstReader s
            else fst (allocReader lib s))
     \<and> firstReader (snd (getFrameAt lib t s)) = (if randReader s = None then None else firstReader s)
     \<and> (case randReader (snd (getFrameAt lib t s)) of
           None \<Rightarrow> fst (getFrameAt lib t s) = None
         | Some i \<Rightarrow>
             fst (getFrameAt lib t s) =
               fst (FfMpeg_getFrameAt lib t
                     (readers (if randReader s = None \<and> firstReader s = None
                               then snd (allocReader lib s) else s) ! i))
             \<and> readers (snd (getFrameAt lib t s)) ! i =
                 snd (FfMpeg_getFrameAt lib t
                       (readers (if randReader s = None \<and> firstReader s = None
                                 then snd (allocReader lib s) else s) ! i)))
     \<and> (case randReader (snd (getFrameAt lib t s)) of
           None \<Rightarrow> True
         | Some i \<Rightarrow>
             clip (readers (snd (getFrameAt lib t s)) ! i) =
               (case clip (readers (if randReader s = None \<and> firstReader s = None
                                    then snd (allocReader lib s) else s) ! i) of
                  None \<Rightarrow> None
                | Some n \<Rightarrow> Some (snd (get_frame_at lib n t))))"
proof -
  have a: "seqReader (snd (getFrameAt lib t s)) = seqReader s"
    by (simp add: getFrameAt_def split_beta split: option.splits)
  have b: "case seqReader s of None \<Rightarrow> True
         | Some i \<Rightarrow> readers (snd (getFrameAt lib t s)) ! i = readers s ! i"
    using getRandReader_seq_object [OF assms, of _ lib]
    by (auto simp: getFrameAt_def split_beta onReader_other split: option.splits)
  have c: "length (readers (snd (getFrameAt lib t s))) =
         length (readers s) + (if randReader s = None \<and> firstReader s = None
                                 \<and> randReader (snd (getFrameAt lib t s)) \<noteq> None then 1 else 0)"
    by (auto simp: getFrameAt_def getRandReader_def allocReader_def Let_def split_beta
        split: option.splits)
  have d: "randReader (snd (seek lib t s)) = randReader s"
    by simp
  have e: "case randReader s of None \<Rightarrow> True
         | Some j \<Rightarrow> readers (snd (seek lib t s)) ! j = readers s ! j"
    using getSeqReader_rand_object [OF assms, of _ lib]
    by (auto simp: seek_def split_beta onReader_other split: option.splits)
  have f: "fst (seek lib t s) \<noteq> None \<longrightarrow> seqReader (snd (seek lib t s)) \<noteq> None"
    by (auto simp: seek_def split_beta split: option.splits)
  note sk = seek_on_sequential [OF assms, of lib t]
  note gf = getFrameAt_on_random [OF assms, of lib t]
  have sk5: "case seqReader (snd (seek lib t s)) of
           None \<Rightarrow> True
         | Some i \<Rightarrow>
             clip (readers (snd (seek lib t s)) ! i) =
               (case clip (readers (if seqReader s = None \<and> firstReader s = None
                                    then snd (allocReader lib s) else s) ! i) of
                  None \<Rightarrow> None
                | Some n \<Rightarrow> Some (snd (get_frame_at lib n t)))"
    using sk(3)
    by (cases "seqReader (snd (seek lib t s))")
      (simp_all add: FfMpeg_seek_def FfMpeg_getFrameAt_moves(1))
  have gf4: "case randReader (snd (getFrameAt lib t s)) of
           None \<Rightarrow> True
         | Some i \<Rightarrow>
             clip (readers (snd (getFrameAt lib t s)) ! i) =
               (case clip (readers (if randReader s = None \<and> firstReader s = None
                                    then snd (allocReader lib s) else s) ! i) of
                  None \<Rightarrow> None
                | Some n \<Rightarrow> Some (snd (get_frame_at lib n t)))"
    using gf(3)
    by (cases "randReader (snd (getFrameAt lib t s))")
      (simp_all add: FfMpeg_getFrameAt_moves(1))
  show ?thesis
    by (intro conjI a b c d e f sk(1) sk(2) sk(3) sk5 sk(4) gf(1) gf(2) gf(3) gf4)
qed

lemma demoBoth_facts:
  "refs_ok demoBoth \<and> seqReader demoBoth = Some 0 \<and> randReader demoBoth = Some 1
   \<and> firstReader demoBoth = None
   \<and> clip (readers demoBoth ! 0) = Some 1 \<and> clip (readers demoBoth ! 1) = Some 3
   \<and> get_frame_at demoLib 1 100 = (Some 100, 2)
   \<and> get_frame_at demoLib 3 100 = (Some 100, 2)"
  by code_simp

theorem cursors_kept_apart_witness:
  "refs_ok demoBoth
   \<and> seqReader (snd (getFrameAt demoLib 100 demoBoth)) = Some 0
   \<and> readers (snd (getFrameAt demoLib 100 demoBoth)) ! 0 = readers demoBoth ! 0
   \<and> length (readers (snd (getFrameAt demoLib 100 demoBoth))) = length (readers demoBoth)
   \<and> randReader (snd (seek demoLib 100 demoBoth)) = Some 1
   \<and> readers (snd (seek demoLib 100 demoBoth)) ! 1 = readers demoBoth ! 1
   \<and> seqReader (snd (seek demoLib 100 demoBoth)) = Some 0
   \<and> clip (readers (snd (seek demoLib 100 demoBoth)) ! 0) = Some 2
   \<and> randReader (snd (getFrameAt demoLib 100 demoBoth)) = Some 1
   \<and> clip (readers (snd (getFrameAt demoLib 100 demoBoth)) ! 1) = Some 2"
proof -
  from demoBoth_facts have ok: "refs_ok demoBoth" by simp
  have slots: "seqReader (snd (seek demoLib 100 demoBoth)) = Some 0"
    "randReader (snd (getFrameAt demoLib 100 demoBoth)) = Some 1"
    using demoBoth_facts cursors_kept_apart [OF ok, of demoLib 100] by simp_all
  show ?thesis
    using demoBoth_facts slots cursors_kept_apart [OF ok, of demoLib 100]
    by clarsimp
qed

subsection \<open>The Done flag\<close>

text \<open>
  C5 as stated fails for \<^verbatim>\<open>seek\<close>: after the end of the stream a seek that returns a
  frame leaves the Done flag set.
\<close>

theorem seek_keeps_done_counterexample:
  "isDone demoEnd
   \<and> fst (seek demoLib 0 demoEnd) = Some \<lparr>ms = 0, frameWidth = Some 320, frameHeight = Some 240\<rparr>
   \<and> isDone (snd (seek demoLib 0 demoEnd))"
  by code_simp

text \<open>
  C5, amended. When \<^verbatim>\<open>getNextFrame\<close> has a sequential reader and gets no frame from
  it, it returns no frame, sets the Done flag and sets \<^verbatim>\<open>prevMs\<close> and
  \<^verbatim>\<open>_readerPrevMs\<close> to -1. Once set, the flag stays set across \<^verbatim>\<open>getNextFrame\<close>,
  \<^verbatim>\<open>seek\<close>, \<^verbatim>\<open>getFrameAt\<close>, \<^verbatim>\<open>getDuration\<close>, \<^verbatim>\<open>getMsList\<close>,
  \<^verbatim>\<open>getNextFrameOffset\<close>, \<^verbatim>\<open>setMute\<close>, \<^verbatim>\<open>markDone\<close> and a \<^verbatim>\<open>getPrevFrame\<close>
  that returns no frame; a \<^verbatim>\<open>getPrevFrame\<close> that returns a frame clears it, and so do
  \<^verbatim>\<open>close\<close> and \<^verbatim>\<open>open\<close>.
\<close>

theorem done_flag_sticky:
  "(seqReader (snd (getNextFrame lib s)) \<noteq> None \<and> fst (getNextFrame lib s) = None \<longrightarrow>
      isDone (snd (getNextFrame lib s)) \<and> prevMs (snd (getNextFrame lib s)) = - 1
      \<and> readerPrevMs (snd (getNextFrame lib s)) = - 1)
   \<and> (isDone s \<longrightarrow>
        isDone (snd (getNextFrame lib s)) \<and> isDone (snd (seek lib t s))
        \<and> isDone (snd (getFrameAt lib t s)) \<and> isDone (snd (getDuration lib s))
        \<and> isDone (snd (getMsList lib s)) \<and> isDone (snd (getNextFrameOffset lib s))
        \<and> isDone (setMute lib m s) \<and> isDone (markDone s)
        \<and> (fst (getPrevFrame lib s) = None \<longrightarrow> isDone (snd (getPrevFrame lib s))))
   \<and> (fst (getPrevFrame lib s) \<noteq> None \<longrightarrow> \<not> isDone (snd (getPrevFrame lib s)))
   \<and> \<not> isDone (ClipReader_close s)
   \<and> \<not> isDone (snd (ClipReader_open lib f w h t' x s))"
  using getNextFrame_eos [of lib s] getNextFrame_isDone [of s lib] getPrevFrame_isDone [of lib s]
    reset_isDone(1) [of s] reset_isDone(2) [of lib f w h t' x s]
  by (simp add: markDone_def other_isDone)

lemma demoEnd_facts:
  "fst (getNextFrame demoLib demoLast) = None \<and> seqReader demoEnd \<noteq> None \<and> isDone demoEnd
   \<and> fst (getPrevFrame demoLib demoEnd) \<noteq> None"
  by code_simp

theorem done_flag_sticky_witness:
  "fst (getNextFrame demoLib demoLast) = None
   \<and> isDone demoEnd \<and> prevMs demoEnd = - 1 \<and> readerPrevMs demoEnd = - 1
   \<and> isDone (snd (seek demoLib 0 demoEnd))
   \<and> isDone (snd (getNextFrame demoLib demoEnd))
   \<and> \<not> isDone (snd (getPrevFrame demoLib demoEnd))
   \<and> \<not> isDone (ClipReader_close demoEnd)"
  using demoEnd_facts done_flag_sticky [of demoLib demoLast]
    done_flag_sticky [of demoLib demoEnd 0]
  by (simp add: demoEnd_def)

subsection \<open>Handles allocated by the cursor pair\<close>

lemma closeReader_length [simp]: "length (readers (closeReader r s)) = length (readers s)"
  by (simp add: closeReader_def split: option.splits)

lemma close_length [simp]: "length (readers (ClipReader_close s)) = length (readers s)"
  by (simp add: ClipReader_close_def ClipReader_reset_def)

lemma open_success:
  assumes "fst (ClipReader_open lib f w h t x s0)"
  shows "firstReader (snd (ClipReader_open lib f w h t x s0)) = Some (length (readers s0))"
    and "seqReader (snd (ClipReader_open lib f w h t x s0)) = None"
    and "randReader (snd (ClipReader_open lib f w h t x s0)) = None"
    and "length (readers (snd (ClipReader_open lib f w h t x s0))) = Suc (length (readers s0))"
    and "clip (readers (snd (ClipReader_open lib f w h t x s0)) ! length (readers s0)) \<noteq> None"
proof -
  let ?s2 = "(ClipReader_close s0)\<lparr>path := Some f, width := w, height := h, firstMs := t, extras := x\<rparr>"
  have o: "ClipReader_open lib f w h t x s0 =
      (fst (allocReader lib ?s2) \<noteq> None, (snd (allocReader lib ?s2))\<lparr>firstReader := fst (allocReader lib ?s2)\<rparr>)"
    by (simp add: ClipReader_open_def Let_def split_beta)
  from assms have ok: "fst (allocReader lib ?s2) \<noteq> None"
    by (simp add: o)
  have cl: "seqReader ?s2 = None" "randReader ?s2 = None" "length (readers ?s2) = length (readers s0)"
    by (simp_all add: ClipReader_close_def ClipReader_reset_def)
  from allocReader_cases(1) [of lib ?s2] ok
  have k: "fst (allocReader lib ?s2) = Some (length (readers s0))"
    using cl by auto
  show "firstReader (snd (ClipReader_open lib f w h t x s0)) = Some (length (readers s0))"
    using k by (simp add: o)
  show "seqReader (snd (ClipReader_open lib f w h t x s0)) = None"
    using cl by (simp add: o)
  show "randReader (snd (ClipReader_open lib f w h t x s0)) = None"
    using cl by (simp add: o)
  show "length (readers (snd (ClipReader_open lib f w h t x s0))) = Suc (length (readers s0))"
    using allocReader_cases(3) [OF ok] cl by (simp add: o)
  show "clip (readers (snd (ClipReader_open lib f w h t x s0)) ! length (readers s0)) \<noteq> None"
    using allocReader_cases(3) [OF ok] cl by (simp add: o)
qed

lemma accesses_Cons: "accesses lib s (a # acs) = accesses lib (access lib s a) acs"
  by (simp add: accesses_def)

lemma access_same:
  "slot a s \<noteq> None \<Longrightarrow> access lib s a = s"
  by (cases a) (auto simp: getSeqReader_def getRandReader_def)

lemma access_other_slot: "b \<noteq> a \<Longrightarrow> slot a (access lib s b) = slot a s"
  by (cases a; cases b) simp_all

lemma access_claims_first:
  assumes "firstReader s = Some n0" and "seqReader s = None" and "randReader s = None"
    and "length (readers s) = Suc n0" and "clip (readers s ! n0) \<noteq> None"
  shows "claimed n0 a (access lib s a)"
proof -
  have all: "\<forall>i. n0 \<le> i \<and> i < Suc n0 \<longrightarrow> clip (readers s ! i) \<noteq> None"
    using assms(5) by (metis le_antisym less_Suc_eq_le)
  have "access lib s a = (case a of Sequential \<Rightarrow> s\<lparr>seqReader := Some n0, firstReader := None\<rparr>
                          | Random \<Rightarrow> s\<lparr>randReader := Some n0, firstReader := None\<rparr>)"
    using assms by (cases a) (simp_all add: getSeqReader_def getRandReader_def Let_def)
  with assms all show ?thesis
    by (cases a) (simp_all add: claimed_def)
qed

lemma access_attempt:
  assumes "slot a s = None" and "firstReader s = None"
  shows "slot a (access lib s a) = fst (allocReader lib s)"
    and "readers (access lib s a) = readers (snd (allocReader lib s))"
    and "slot (other a) (access lib s a) = slot (other a) s"
    and "firstReader (access lib s a) = None"
  using assms
  by (cases a; simp add: getSeqReader_def getRandReader_def Let_def split_beta)+

lemma claimed_access:
  assumes "claimed n0 a0 s"
  shows "claimed n0 a0 (access lib s a)"
proof (cases "slot a s \<noteq> None")
  case True
  with assms show ?thesis by (simp add: access_same)
next
  case False
  with assms have a: "a = other a0" and none: "slot (other a0) s = None"
    and len: "length (readers s) = Suc n0" and fr: "firstReader s = None"
    and sl: "slot a0 s = Some n0"
    and cl: "\<forall>i. n0 \<le> i \<and> i < Suc n0 \<longrightarrow> clip (readers s ! i) \<noteq> None"
    by (cases a; cases a0; auto simp: claimed_def)+
  have oo: "other (other a0) = a0" by (cases a0) simp_all
  have ne: "a0 \<noteq> other a0" by (cases a0) simp_all
  note at = access_attempt [of "other a0" s lib, OF none fr, unfolded oo]
  show ?thesis
  proof (cases "fst (allocReader lib s)")
    case None
    with at allocReader_cases(2) [OF None] len cl sl show ?thesis
      unfolding a by (simp add: claimed_def)
  next
    case (Some k)
    then have nn: "fst (allocReader lib s) \<noteq> None" by simp
    from allocReader_cases(1) [of lib s] Some len have k: "k = Suc n0" by simp
    from allocReader_cases(3) [OF nn] len
    have r: "length (readers (snd (allocReader lib s))) = Suc (Suc n0)"
      "clip (readers (snd (allocReader lib s)) ! Suc n0) \<noteq> None"
      "readers (snd (allocReader lib s)) ! n0 = readers s ! n0"
      by simp_all
    have "\<And>i. n0 \<le> i \<and> i < Suc (Suc n0) \<Longrightarrow> i = n0 \<or> i = Suc n0" by auto
    with r cl have "\<forall>i. n0 \<le> i \<and> i < Suc (Suc n0) \<longrightarrow>
        clip (readers (snd (allocReader lib s)) ! i) \<noteq> None"
      by (metis le_refl lessI)
    with at Some k r sl show ?thesis
      unfolding a by (simp add: claimed_def)
  qed
qed

lemma claimed_accesses: "claimed n0 a0 s \<Longrightarrow> claimed n0 a0 (accesses lib s acs)"
  by (induction acs arbitrary: s) (simp_all add: accesses_def claimed_access)

lemma unused_slot: "a \<notin> set acs \<Longrightarrow> slot a (accesses lib s acs) = slot a s"
  by (induction acs arbitrary: s) (auto simp: accesses_def access_other_slot)

text \<open>
  C6 as stated fails where the cursor pair uses both accessors and the native open for
  the second handle fails: \<^verbatim>\<open>_allocReader\<close> then returns None, the slot stays empty and
  one handle is all that was allocated, however often the accessor is called again.
\<close>

theorem second_open_fails_counterexample:
  "fst (ClipReader_open demoLib ''clip.mp4'' 320 240 0 None (ClipReader_init 1))
   \<and> length (readers (ClipReader_init 1 :: (nat, unit, nat) ClipReader)) = 0
   \<and> seqReader (accesses demoLib demoScarce [Sequential, Random, Random]) = Some 0
   \<and> randReader (accesses demoLib demoScarce [Sequential, Random, Random]) = None
   \<and> length (readers (accesses demoLib demoScarce [Sequential, Random, Random])) = 1"
  by code_simp

text \<open>
  C6, amended. After a successful \<^verbatim>\<open>open\<close>, which allocates one handle, a sequence of
  accessor calls that uses only the sequential accessor (or only the random one) leaves
  that handle as the only one allocated. In any sequence the handles allocated are two
  when both slots hold a reader at the end and one otherwise, never more, and a slot
  holds a reader only if its accessor was called. The accessor called first receives the
  handle made by \<^verbatim>\<open>open\<close>, after which the first-reader slot is empty, and every
  handle allocated holds an open clip. A call of an accessor whose slot is empty when
  there is no first reader allocates exactly when the native open succeeds at that
  call: it then fills the slot with one new handle, and otherwise leaves the slot empty
  and allocates nothing, so that the next call tries again.
\<close>

theorem handles_allocated:
  assumes "fst (ClipReader_open lib f w h t x s0)"
  shows "firstReader (snd (ClipReader_open lib f w h t x s0)) = Some (length (readers s0))
     \<and> length (readers (snd (ClipReader_open lib f w h t x s0))) = length (readers s0) + 1
     \<and> (set acs \<subseteq> {Sequential} \<longrightarrow>
            length (readers (accesses lib (snd (ClipReader_open lib f w h t x s0)) acs)) =
              length (readers s0) + 1)
     \<and> (set acs \<subseteq> {Random} \<longrightarrow>
            length (readers (accesses lib (snd (ClipReader_open lib f w h t x s0)) acs)) =
              length (readers s0) + 1)
     \<and> length (readers (accesses lib (snd (ClipReader_open lib f w h t x s0)) acs)) =
           length (readers s0) +
           (if seqReader (accesses lib (snd (ClipReader_open lib f w h t x s0)) acs) \<noteq> None
               \<and> randReader (accesses lib (snd (ClipReader_open lib f w h t x s0)) acs) \<noteq> None
            then 2 else 1)
     \<and> (seqReader (accesses lib (snd (ClipReader_open lib f w h t x s0)) acs) \<noteq> None \<longrightarrow>
            Sequential \<in> set acs)
     \<and> (randReader (accesses lib (snd (ClipReader_open lib f w h t x s0)) acs) \<noteq> None \<longrightarrow>
            Random \<in> set acs)
     \<and> (acs \<noteq> [] \<longrightarrow>
            slot (hd acs) (accesses lib (snd (ClipReader_open lib f w h t x s0)) acs) =
              Some (length (readers s0))
            \<and> firstReader (accesses lib (snd (ClipReader_open lib f w h t x s0)) acs) = None)
     \<and> (\<forall>i. length (readers s0) \<le> i
              \<and> i < length (readers (accesses lib (snd (ClipReader_open lib f w h t x s0)) acs)) \<longrightarrow>
            clip (readers (accesses lib (snd (ClipReader_open lib f w h t x s0)) acs) ! i) \<noteq> None)
     \<and> (slot a s = None \<and> firstReader s = None \<longrightarrow>
            (slot a (access lib s a) \<noteq> None) =
              (fst (open_clip lib (nativeWorld s) (path s) (width s) (height s) (firstMs s)
                     (extras s)) \<noteq> None)
            \<and> length (readers (access lib s a)) =
                length (readers s) + (if slot a (access lib s a) \<noteq> None then 1 else 0))"
proof -
  let ?s1 = "snd (ClipReader_open lib f w h t x s0)"
  let ?S = "accesses lib ?s1 acs"
  let ?n0 = "length (readers s0)"
  note os = open_success [OF assms]
  have unused: "\<And>b. b \<notin> set acs \<Longrightarrow> slot b ?S = None"
  proof -
    fix b assume "b \<notin> set acs"
    then have "slot b ?S = slot b ?s1" by (rule unused_slot)
    then show "slot b ?S = None" using os(2,3) by (cases b) simp_all
  qed
  have step: "slot a s = None \<and> firstReader s = None \<longrightarrow>
            (slot a (access lib s a) \<noteq> None) =
              (fst (open_clip lib (nativeWorld s) (path s) (width s) (height s) (firstMs s)
                     (extras s)) \<noteq> None)
            \<and> length (readers (access lib s a)) =
                length (readers s) + (if slot a (access lib s a) \<noteq> None then 1 else 0)"
  proof
    assume h: "slot a s = None \<and> firstReader s = None"
    then have at: "slot a (access lib s a) = fst (allocReader lib s)"
      "readers (access lib s a) = readers (snd (allocReader lib s))"
      using access_attempt [of a s lib] by simp_all
    show "(slot a (access lib s a) \<noteq> None) =
              (fst (open_clip lib (nativeWorld s) (path s) (width s) (height s) (firstMs s)
                     (extras s)) \<noteq> None)
            \<and> length (readers (access lib s a)) =
                length (readers s) + (if slot a (access lib s a) \<noteq> None then 1 else 0)"
      using allocReader_cases(2,3,4) [of lib s] unfolding at
      by (cases "fst (allocReader lib s)") simp_all
  qed
  have used: "(seqReader ?S \<noteq> None \<longrightarrow> Sequential \<in> set acs)
            \<and> (randReader ?S \<noteq> None \<longrightarrow> Random \<in> set acs)"
  proof (intro conjI impI)
    assume "seqReader ?S \<noteq> None"
    then show "Sequential \<in> set acs"
      using unused [of Sequential] by (cases "Sequential \<in> set acs") simp_all
  next
    assume "randReader ?S \<noteq> None"
    then show "Random \<in> set acs"
      using unused [of Random] by (cases "Random \<in> set acs") simp_all
  qed
  have main: "length (readers ?S) = ?n0 + (if seqReader ?S \<noteq> None \<and> randReader ?S \<noteq> None then 2 else 1)
     \<and> (acs \<noteq> [] \<longrightarrow> slot (hd acs) ?S = Some ?n0 \<and> firstReader ?S = None)
     \<and> (\<forall>i. ?n0 \<le> i \<and> i < length (readers ?S) \<longrightarrow> clip (readers ?S ! i) \<noteq> None)"
  proof (cases acs)
    case Nil
    have "\<forall>i. ?n0 \<le> i \<and> i < Suc ?n0 \<longrightarrow> clip (readers ?s1 ! i) \<noteq> None"
      using os(5) by (metis le_antisym less_Suc_eq_le)
    with Nil os show ?thesis
      by (simp add: accesses_def)
  next
    case (Cons a0 rest)
    have "claimed ?n0 a0 (access lib ?s1 a0)"
      using os by (intro access_claims_first) simp_all
    then have c: "claimed ?n0 a0 ?S"
      unfolding Cons accesses_Cons by (rule claimed_accesses)
    then show ?thesis
      unfolding Cons by (cases a0) (auto simp: claimed_def)
  qed
  have only: "(set acs \<subseteq> {Sequential} \<longrightarrow> length (readers ?S) = ?n0 + 1)
     \<and> (set acs \<subseteq> {Random} \<longrightarrow> length (readers ?S) = ?n0 + 1)"
  proof (intro conjI impI)
    assume "set acs \<subseteq> {Sequential}"
    then have "Random \<notin> set acs" by auto
    then have "randReader ?S = None" using unused [of Random] by simp
    with main show "length (readers ?S) = ?n0 + 1" by simp
  next
    assume "set acs \<subseteq> {Random}"
    then have "Sequential \<notin> set acs" by auto
    then have "seqReader ?S = None" using unused [of Sequential] by simp
    with main show "length (readers ?S) = ?n0 + 1" by simp
  qed
  from os(1,4) step used main only show ?thesis
    by simp
qed

lemma demo_open:
  "fst (ClipReader_open demoLib ''clip.mp4'' 320 240 0 None (ClipReader_init 2))
   \<and> fst (ClipReader_open demoLib ''clip.mp4'' 320 240 0 None (ClipReader_init 1))"
  by code_simp

lemma demo_slots:
  "randReader (accesses demoLib demoClip [Random, Sequential, Random, Sequential]) = Some 0
   \<and> seqReader (accesses demoLib demoClip [Random, Sequential, Random, Sequential]) = Some 1
   \<and> seqReader (accesses demoLib demoScarce [Random, Sequential, Random, Sequential]) = None"
  by code_simp

theorem handles_allocated_witness:
  "length (readers (accesses demoLib demoClip [Sequential, Sequential, Sequential])) = 1
   \<and> length (readers (accesses demoLib demoClip [Random, Sequential, Random, Sequential])) = 2
   \<and> randReader (accesses demoLib demoClip [Random, Sequential, Random, Sequential]) = Some 0
   \<and> firstReader (accesses demoLib demoClip [Random, Sequential, Random, Sequential]) = None
   \<and> length (readers (accesses demoLib demoScarce [Random, Sequential, Random, Sequential])) = 1"
  using handles_allocated [OF conjunct1 [OF demo_open], of "[Sequential, Sequential, Sequential]"]
    handles_allocated [OF conjunct1 [OF demo_open], of "[Random, Sequential, Random, Sequential]"]
    handles_allocated [OF conjunct2 [OF demo_open], of "[Random, Sequential, Random, Sequential]"]
    demo_slots
  by (simp add: demoClip_def demoScarce_def ClipReader_init_def)

subsection \<open>Basic facts about the session's steps\<close>

lemma initVariables_emit: "initVariables (emit es s) = emit es (initVariables s)"
  by (simp add: initVariables_def emit_def)

lemma initVariables_isRunning: "initVariables (s\<lparr>isRunning := b\<rparr>) = initVariables s"
  by (simp add: initVariables_def)

lemma initVariables_mover [simp]: "moverThread (initVariables s) = moverThread s"
  by (simp add: initVariables_def)

lemma emit_mover [simp]: "moverThread (emit es s) = moverThread s"
  by (simp add: emit_def)

lemma finalize_mover_None [simp]: "moverThread (finalizeMoverThread True ob s) = None"
  by (simp add: finalizeMoverThread_def emit_def split: option.splits)

lemma close_fields: "initVariables (StreamReader_close e k s) = StreamReader_close e k s"
  by (simp add: StreamReader_close_def Let_def initVariables_def)

lemma close_mover: "moverThread (StreamReader_close e k s) = None"
  by (simp add: StreamReader_close_def Let_def terminateMoverThread_def)

lemma close_closed:
  "stream (StreamReader_close e k s) = None \<and> \<not> isRunning (StreamReader_close e k s) \<and>
   curFilename (StreamReader_close e k s) = []"
  by (simp add: StreamReader_close_def Let_def initVariables_def)

lemma close_on_closed:
  "stream c = None \<Longrightarrow> curFilename c = [] \<Longrightarrow> moverThread c = None \<Longrightarrow> initVariables c = c \<Longrightarrow>
   StreamReader_close e k c = (if k then emit [KillableCallback] c else c)"
  by (simp add: StreamReader_close_def Let_def flush_def terminateMoverThread_def
      finalizeMoverThread_def initVariables_emit initVariables_isRunning)

lemma emit_fields [simp]:
  "locationName (emit es s) = locationName s" "clipManager (emit es s) = clipManager s"
  "recordDir (emit es s) = recordDir s" "storageDir (emit es s) = storageDir s"
  "recordInMemory (emit es s) = recordInMemory s" "moveFailedFn (emit es s) = moveFailedFn s"
  "cachedProcSize (emit es s) = cachedProcSize s"
  "stream (emit es s) = stream s" "isRunning (emit es s) = isRunning s"
  "prevFilename (emit es s) = prevFilename s" "prevDirPath (emit es s) = prevDirPath s"
  "curFilePath (emit es s) = curFilePath s" "curFilename (emit es s) = curFilename s"
  "curDirPath (emit es s) = curDirPath s" "curStartMs (emit es s) = curStartMs s"
  "curLastMs (emit es s) = curLastMs s" "trace (emit es s) = trace s @ es"
  by (simp_all add: emit_def)

lemma finalize_fields [simp]:
  "locationName (finalizeMoverThread b ob s) = locationName s"
  "clipManager (finalizeMoverThread b ob s) = clipManager s"
  "recordDir (finalizeMoverThread b ob s) = recordDir s"
  "storageDir (finalizeMoverThread b ob s) = storageDir s"
  "recordInMemory (finalizeMoverThread b ob s) = recordInMemory s"
  "moveFailedFn (finalizeMoverThread b ob s) = moveFailedFn s"
  "cachedProcSize (finalizeMoverThread b ob s) = cachedProcSize s"
  "stream (finalizeMoverThread b ob s) = stream s"
  "isRunning (finalizeMoverThread b ob s) = isRunning s"
  "prevFilename (finalizeMoverThread b ob s) = prevFilename s"
  "prevDirPath (finalizeMoverThread b ob s) = prevDirPath s"
  "curFilePath (finalizeMoverThread b ob s) = curFilePath s"
  "curFilename (finalizeMoverThread b ob s) = curFilename s"
  "curDirPath (finalizeMoverThread b ob s) = curDirPath s"
  "curStartMs (finalizeMoverThread b ob s) = curStartMs s"
  "curLastMs (finalizeMoverThread b ob s) = curLastMs s"
  by (simp_all add: finalizeMoverThread_def split: option.splits)

lemma addFileToDb_fields [simp]:
  "locationName (addFileToDb e s) = locationName s"
  "clipManager (addFileToDb e s) = clipManager s"
  "recordDir (addFileToDb e s) = recordDir s"
  "storageDir (addFileToDb e s) = storageDir s"
  "recordInMemory (addFileToDb e s) = recordInMemory s"
  "moveFailedFn (addFileToDb e s) = moveFailedFn s"
  "stream (addFileToDb e s) = stream s"
  "isRunning (addFileToDb e s) = isRunning s"
  "prevFilename (addFileToDb e s) = prevFilename s"
  "prevDirPath (addFileToDb e s) = prevDirPath s"
  "curFilePath (addFileToDb e s) = curFilePath s"
  "curFilename (addFileToDb e s) = curFilename s"
  "curDirPath (addFileToDb e s) = curDirPath s"
  "curStartMs (addFileToDb e s) = curStartMs s"
  "curLastMs (addFileToDb e s) = curLastMs s"
  by (simp_all add: addFileToDb_def ThreadedFileMover_init_def getProcSize_def Let_def
      terminateMoverThread_def split: prod.splits)

lemma getNewFrame_new_segment:
  assumes "stream s \<noteq> None" "isRunning s" "clipManager s"
    and "result p = Some f" "sf_isRunning f \<noteq> 0" "sf_filename f \<noteq> curFilePath s"
  shows "fst (getNewFrame e p s) = Some f"
    "curFilePath (snd (getNewFrame e p s)) = sf_filename f"
    "curFilename (snd (getNewFrame e p s)) = os_path_split_tail (sf_filename f)"
    "curDirPath (snd (getNewFrame e p s)) =
       lower (os_path_join (locationName s) (take 5 (os_path_split_tail (sf_filename f))))"
    "curStartMs (snd (getNewFrame e p s)) = sf_ms f"
    "curLastMs (snd (getNewFrame e p s)) = sf_ms f"
    "prevFilename (snd (getNewFrame e p s)) = curFilename s"
    "prevDirPath (snd (getNewFrame e p s)) = curDirPath s"
    "stream (snd (getNewFrame e p s)) = stream s"
    "isRunning (snd (getNewFrame e p s))"
    "clipManager (snd (getNewFrame e p s))"
    "locationName (snd (getNewFrame e p s)) = locationName s"
    "recordDir (snd (getNewFrame e p s)) = recordDir s"
    "storageDir (snd (getNewFrame e p s)) = storageDir s"
    "recordInMemory (snd (getNewFrame e p s)) = recordInMemory s"
    "moveFailedFn (snd (getNewFrame e p s)) = moveFailedFn s"
  using assms by (auto simp: getNewFrame_def Let_def)

lemma getNewFrame_same_segment:
  assumes "stream s \<noteq> None" "isRunning s"
    and "result p = Some f" "sf_isRunning f \<noteq> 0" "\<not> (clipManager s \<and> sf_filename f \<noteq> curFilePath s)"
  shows "fst (getNewFrame e p s) = Some f"
    "snd (getNewFrame e p s) = finalizeMoverThread False (atFinalize e) (s\<lparr>curLastMs := sf_ms f\<rparr>)"
  using assms by (auto simp: getNewFrame_def Let_def)

subsection \<open>Lower-casing and joining paths\<close>

lemma of_char_lower: "isupper c \<Longrightarrow> (of_char (lower_char c) :: nat) = of_char c + 32"
  by (simp add: lower_char_def isupper_def)

lemma lower_char_neq: "isupper c \<Longrightarrow> lower_char c \<noteq> c"
  using of_char_lower [of c] by auto

lemma lower_char_slash: "(lower_char c = CHR ''/'') = (c = CHR ''/'')"
proof (cases "isupper c")
  case True
  then have "(of_char (lower_char c) :: nat) \<noteq> of_char (CHR ''/'')"
    and "(of_char c :: nat) \<noteq> of_char (CHR ''/'')"
    using of_char_lower [of c] by (simp_all add: isupper_def)
  then show ?thesis by auto
next
  case False
  then show ?thesis by (simp add: lower_char_def)
qed

lemma lower_neq: "\<exists>c\<in>set n. isupper c \<Longrightarrow> lower n \<noteq> n"
  by (induction n) (auto simp: lower_def lower_char_neq)

lemma lower_hd: "b \<noteq> [] \<Longrightarrow> (hd (lower b) = CHR ''/'') = (hd b = CHR ''/'')"
  by (cases b) (simp_all add: lower_def lower_char_slash)

lemma lower_Nil [simp]: "(lower b = []) = (b = [])"
  by (simp add: lower_def)

lemma join_lower_neq:
  assumes "lower b \<noteq> b"
  shows "os_path_join a (lower b) \<noteq> os_path_join a b"
proof (cases "b \<noteq> [] \<and> hd b = CHR ''/''")
  case True
  then have "lower b \<noteq> [] \<and> hd (lower b) = CHR ''/''"
    by (simp add: lower_hd)
  with True assms show ?thesis
    by (simp add: os_path_join_def)
next
  case False
  define pre where "pre = (if a = [] \<or> last a = CHR ''/'' then a else a @ ''/'')"
  from False have nl: "\<not> (lower b \<noteq> [] \<and> hd (lower b) = CHR ''/'')"
    by (auto simp: lower_hd)
  from False have "os_path_join a b = pre @ b"
    unfolding os_path_join_def pre_def by auto
  moreover from nl have "os_path_join a (lower b) = pre @ lower b"
    unfolding os_path_join_def pre_def by auto
  ultimately show ?thesis using assms by simp
qed

lemma not_upper_lower: "\<not> isupper (lower_char c)"
proof (cases "isupper c")
  case True
  then show ?thesis using of_char_lower [of c] by (simp add: isupper_def)
next
  case False
  then show ?thesis by (simp add: lower_char_def)
qed

lemma lower_idem: "lower (lower n) = lower n"
  using not_upper_lower by (simp add: lower_def lower_char_def)

subsection \<open>The snapshot taken by a mover\<close>

lemma mover_init_fields:
  "mv_curFilename (fst (ThreadedFileMover_init np s)) = curFilename s"
  "mv_curDirPath (fst (ThreadedFileMover_init np s)) = curDirPath s"
  "mv_storageDir (fst (ThreadedFileMover_init np s)) = storageDir s"
  "mv_recordDir (fst (ThreadedFileMover_init np s)) = recordDir s"
  "mv_prevDirPath (fst (ThreadedFileMover_init np s)) = prevDirPath s"
  "mv_prevFilename (fst (ThreadedFileMover_init np s)) = prevFilename s"
  "mv_curStartMs (fst (ThreadedFileMover_init np s)) = curStartMs s"
  "mv_curLastMs (fst (ThreadedFileMover_init np s)) = curLastMs s"
  "mv_recordInMemory (fst (ThreadedFileMover_init np s)) = recordInMemory s"
  "mv_clipManager (fst (ThreadedFileMover_init np s)) = clipManager s"
  "mv_moveFailedFn (fst (ThreadedFileMover_init np s)) = moveFailedFn s"
  "mv_locationName (fst (ThreadedFileMover_init np s)) = locationName s"
  by (simp_all add: ThreadedFileMover_init_def split: prod.splits)

subsection \<open>Flushing\<close>

text \<open>
  C7. For an open running session, \<^verbatim>\<open>flush(msNeeded)\<close> calls the library's flush
  exactly when \<^verbatim>\<open>msNeeded\<close> is None or at or after the start of the current segment:
  the number of flushes in the trace grows by one in that case and the session is left
  as it was otherwise.
\<close>

theorem flush_iff_needed:
  assumes "stream s \<noteq> None" and "isRunning s"
  shows "flushes (trace (flush msNeeded s)) =
           flushes (trace s) +
           (if msNeeded = None \<or> (\<exists>m. msNeeded = Some m \<and> curStartMs s \<le> m) then 1 else 0)
         \<and> (if msNeeded = None \<or> (\<exists>m. msNeeded = Some m \<and> curStartMs s \<le> m)
            then flush msNeeded s = emit [FlushOutput] s
            else flush msNeeded s = s)"
  using assms by (cases msNeeded) (simp_all add: flush_def flushes_def emit_def)

text \<open>
  The scenario of the specification: after a first frame at 100 ms the segment starts at
  100, so a flush for 50 ms does nothing and a flush for 150 ms (or with no time)
  flushes.
\<close>

lemma s100_running: "stream s100 \<noteq> None \<and> isRunning s100 \<and> curStartMs s100 = 100"
  by code_simp

theorem flush_iff_needed_witness:
  "stream s100 \<noteq> None \<and> isRunning s100 \<and> curStartMs s100 = 100
   \<and> flush (Some 50) s100 = s100
   \<and> flushes (trace (flush (Some 150) s100)) = flushes (trace s100) + 1
   \<and> flushes (trace (flush None s100)) = flushes (trace s100) + 1"
  using s100_running flush_iff_needed [of s100 "Some 50"] flush_iff_needed [of s100 "Some 150"]
    flush_iff_needed [of s100 None]
  by (simp add: flushes_def emit_def)

subsection \<open>Closing twice\<close>

text \<open>
  C8. Closing a session that has just been closed changes nothing: no flush, no release
  of the stream and no mover is started, so the trace is the same (but for the call of a
  killable callback when the second close is given one), and every field that
  \<^verbatim>\<open>_initVariables\<close> sets has its reset value. This holds for every state the first
  close starts from.
\<close>

theorem close_idempotent:
  "StreamReader_close e2 False (StreamReader_close e1 k1 s) = StreamReader_close e1 k1 s
   \<and> StreamReader_close e2 True (StreamReader_close e1 k1 s) =
       emit [KillableCallback] (StreamReader_close e1 k1 s)
   \<and> initVariables (StreamReader_close e1 k1 s) = StreamReader_close e1 k1 s
   \<and> moverThread (StreamReader_close e1 k1 s) = None"
  using close_on_closed [of "StreamReader_close e1 k1 s" e2] close_closed [of e1 k1 s]
    close_mover [of e1 k1 s] close_fields [of e1 k1 s]
  by simp

subsection \<open>Frames at an offset\<close>

text \<open>
  C9. \<^verbatim>\<open>getFrameAt\<close> leaves the playback position alone: \<^verbatim>\<open>prevMs\<close>,
  \<^verbatim>\<open>_readerPrevMs\<close>, the Done flag and the memoized duration and timestamp list are the
  same after the call as before, whatever it returns.
\<close>

theorem getFrameAt_keeps_position:
  "prevMs (snd (getFrameAt lib msOffset s)) = prevMs s
   \<and> readerPrevMs (snd (getFrameAt lib msOffset s)) = readerPrevMs s
   \<and> isDone (snd (getFrameAt lib msOffset s)) = isDone s
   \<and> duration (snd (getFrameAt lib msOffset s)) = duration s
   \<and> msList (snd (getFrameAt lib msOffset s)) = msList s"
  by (simp add: getFrameAt_def getRandReader_def allocReader_def onReader_def Let_def
      split: prod.splits option.splits)

subsection \<open>The path reported on failure and the path committed\<close>

text \<open>
  C10. When a frame opens a new segment whose file name has an upper-case letter, the
  mover made for that segment joins the lower-cased directory path with the file name as
  it is for the move-failed callback, while a successful relocation writes to the
  lower-cased file name and the commit to the index uses the lower-cased file name too:
  the path given to the callback is not the path that is committed.
\<close>

theorem failure_path_differs_from_commit_path:
  assumes "stream s \<noteq> None" and "isRunning s" and "clipManager s" and "moveFailedFn s"
    and "result p = Some f" and "sf_isRunning f \<noteq> 0" and "sf_filename f \<noteq> curFilePath s"
    and "\<exists>c\<in>set (os_path_split_tail (sf_filename f)). isupper c"
  shows "let name' = os_path_split_tail (sf_filename f);
             dir = lower (os_path_join (locationName s) (take 5 name'));
             t = fst (ThreadedFileMover_init np (snd (getNewFrame e p s)))
         in mv_curFilename t = name' \<and> mv_curDirPath t = dir \<and> lower dir = dir
            \<and> callbacks (ThreadedFileMover_run False t) = [os_path_join dir name']
            \<and> ThreadedFileMover_run True t =
                [(if recordInMemory s then MoveRecordedFile else ShutilMove)
                   (os_path_join (recordDir s) name')
                   (os_path_join (os_path_join (storageDir s) dir) (lower name')) True]
            \<and> committedPath (ThreadedFileMover_addFileToDb t) = Some (os_path_join dir (lower name'))
            \<and> os_path_join dir name' \<noteq> os_path_join dir (lower name')"
proof -
  define name' where "name' = os_path_split_tail (sf_filename f)"
  define dir where "dir = lower (os_path_join (locationName s) (take 5 name'))"
  define t where "t = fst (ThreadedFileMover_init np (snd (getNewFrame e p s)))"
  note seg = getNewFrame_new_segment [OF assms(1,2,3,5,6,7), of e]
  from assms(8) have ne: "name' \<noteq> []" and low: "lower name' \<noteq> name'"
    using lower_neq [of name'] by (auto simp: name'_def)
  have t1: "mv_curFilename t = name'" "mv_curDirPath t = dir" "mv_clipManager t"
    "mv_moveFailedFn t" "mv_recordInMemory t = recordInMemory s"
    "mv_recordDir t = recordDir s" "mv_storageDir t = storageDir s"
    using assms(3,4) by (simp_all add: t_def mover_init_fields seg name'_def dir_def)
  have "lower dir = dir"
    by (simp add: dir_def lower_idem)
  moreover have "callbacks (ThreadedFileMover_run False t) = [os_path_join dir name']"
    using t1 ne by (simp add: ThreadedFileMover_run_def Let_def)
  moreover have "ThreadedFileMover_run True t =
       [(if recordInMemory s then MoveRecordedFile else ShutilMove)
          (os_path_join (recordDir s) name')
          (os_path_join (os_path_join (storageDir s) dir) (lower name')) True]"
    using t1 ne by (simp add: ThreadedFileMover_run_def Let_def)
  moreover have "committedPath (ThreadedFileMover_addFileToDb t) = Some (os_path_join dir (lower name'))"
    using t1 by (simp add: ThreadedFileMover_addFileToDb_def Let_def)
  moreover have "os_path_join dir name' \<noteq> os_path_join dir (lower name')"
    using join_lower_neq [OF low, of dir] by simp
  ultimately show ?thesis
    using t1 unfolding Let_def name'_def [symmetric] dir_def [symmetric] t_def [symmetric]
    by simp
qed


lemma camOpen_facts:
  "stream camOpen \<noteq> None \<and> isRunning camOpen \<and> clipManager camOpen \<and> moveFailedFn camOpen"
  by code_simp

lemma frameAt_facts:
  "result (frameAt 100 ''/rec/cam/Clip001.mp4'') =
     Some \<lparr>sf_ms = 100, sf_filename = ''/rec/cam/Clip001.mp4'', sf_isRunning = 1\<rparr>
   \<and> ''/rec/cam/Clip001.mp4'' \<noteq> curFilePath camOpen
   \<and> (\<exists>c\<in>set (os_path_split_tail ''/rec/cam/Clip001.mp4''). isupper c)"
  by code_simp

theorem failure_path_differs_from_commit_path_witness:
  "callbacks (ThreadedFileMover_run False (fst (ThreadedFileMover_init (320, 240) s100))) =
     [''cam/clip0/Clip001.mp4'']
   \<and> committedPath (ThreadedFileMover_addFileToDb (fst (ThreadedFileMover_init (320, 240) s100))) =
       Some ''cam/clip0/clip001.mp4''"
proof -
  let ?f = "\<lparr>sf_ms = 100, sf_filename = ''/rec/cam/Clip001.mp4'', sf_isRunning = 1\<rparr>"
  have tail: "os_path_split_tail ''/rec/cam/Clip001.mp4'' = ''Clip001.mp4''"
    by code_simp
  have dir: "lower (os_path_join (locationName camOpen) ''Clip0'') = ''cam/clip0''"
    by code_simp
  have j1: "os_path_join ''cam/clip0'' ''Clip001.mp4'' = ''cam/clip0/Clip001.mp4''"
    by code_simp
  have j2: "os_path_join ''cam/clip0'' (lower ''Clip001.mp4'') = ''cam/clip0/clip001.mp4''"
    by code_simp
  from camOpen_facts frameAt_facts
  have "let name' = os_path_split_tail (sf_filename ?f);
            dir = lower (os_path_join (locationName camOpen) (take 5 name'));
            t = fst (ThreadedFileMover_init (320, 240)
                  (snd (getNewFrame envOk (frameAt 100 ''/rec/cam/Clip001.mp4'') camOpen)))
        in mv_curFilename t = name' \<and> mv_curDirPath t = dir \<and> lower dir = dir
           \<and> callbacks (ThreadedFileMover_run False t) = [os_path_join dir name']
           \<and> ThreadedFileMover_run True t =
               [(if recordInMemory camOpen then MoveRecordedFile else ShutilMove)
                  (os_path_join (recordDir camOpen) name')
                  (os_path_join (os_path_join (storageDir camOpen) dir) (lower name')) True]
           \<and> committedPath (ThreadedFileMover_addFileToDb t) = Some (os_path_join dir (lower name'))
           \<and> os_path_join dir name' \<noteq> os_path_join dir (lower name')"
    by (intro failure_path_differs_from_commit_path) simp_all
  then show ?thesis
    by (simp add: Let_def tail dir j1 j2 s100_def)
qed

subsection \<open>One mover at a time\<close>

lemma submissions_append [simp]: "submissions (es @ es') = submissions es @ submissions es'"
  by (induction es rule: submissions.induct) simp_all

lemma commits_append [simp]: "commits (es @ es') = commits es @ commits es'"
  by (induction es rule: commits.induct) simp_all

lemma callbacks_append [simp]: "callbacks (es @ es') = callbacks es @ callbacks es'"
  by (induction es rule: callbacks.induct) simp_all

lemma run_projections [simp]:
  "submissions (ThreadedFileMover_run ok t) = []"
  "commits (ThreadedFileMover_run ok t) = []"
  by (simp_all add: ThreadedFileMover_run_def Let_def)

lemma addFileToDb_projections [simp]:
  "submissions [ThreadedFileMover_addFileToDb t] = []"
  "commits [ThreadedFileMover_addFileToDb t] = [ThreadedFileMover_addFileToDb t]"
  "callbacks [ThreadedFileMover_addFileToDb t] = []"
  by (simp_all add: ThreadedFileMover_addFileToDb_def Let_def)

lemma mover_phases_append:
  "mover_phases ph (es @ es') =
     (case mover_phases ph es of None \<Rightarrow> None | Some ph' \<Rightarrow> mover_phases ph' es')"
  by (induction es arbitrary: ph) (simp_all split: option.splits)

lemma mover_phases_prefix: "mover_phases ph (es @ es') \<noteq> None \<Longrightarrow> mover_phases ph es \<noteq> None"
  by (simp add: mover_phases_append split: option.splits)

lemma run_phases:
  "mv_curFilename t \<noteq> [] \<Longrightarrow> mv_clipManager t \<Longrightarrow>
   mover_phases (Relocating t) (ThreadedFileMover_run ok t @ [ThreadedFileMover_addFileToDb t]) = Some Idle"
  by (simp add: ThreadedFileMover_run_def Let_def ThreadedFileMover_addFileToDb_def)

lemma mover_inv_emit:
  "mover_inv s \<Longrightarrow> ev = FlushOutput \<or> ev = FreeStreamData \<or> ev = KillableCallback
   \<Longrightarrow> mover_inv (emit [ev] s)"
  by (auto simp: mover_inv_def emit_def mover_phases_append pending_def split: option.splits)

lemma mover_inv_finalize: "mover_inv s \<Longrightarrow> mover_inv (finalizeMoverThread b ob s)"
proof (cases "moverThread s")
  case None
  then show "mover_inv s \<Longrightarrow> ?thesis"
    by (simp add: finalizeMoverThread_def)
next
  case (Some t)
  assume "mover_inv s"
  with Some have t: "mover_phases Idle (trace s) = Some (Relocating t)"
    "mv_curFilename t \<noteq> []" "mv_clipManager t"
    by (simp_all add: mover_inv_def)
  from Some \<open>mover_inv s\<close>
  have c: "map ThreadedFileMover_addFileToDb (submissions (trace s)) =
      commits (trace s) @ [ThreadedFileMover_addFileToDb t]"
    by (simp add: mover_inv_def pending_def)
  have "mover_phases Idle
          (trace s @ (ThreadedFileMover_run (moved ob) t @ [ThreadedFileMover_addFileToDb t])) = Some Idle"
    using mover_phases_append [of Idle "trace s"
        "ThreadedFileMover_run (moved ob) t @ [ThreadedFileMover_addFileToDb t]"]
    by (simp add: t run_phases)
  then show ?thesis
    using Some \<open>mover_inv s\<close> c
    by (simp add: finalizeMoverThread_def mover_inv_def emit_def pending_def)
qed

lemma mover_inv_addFileToDb: "mover_inv s \<Longrightarrow> mover_inv (addFileToDb e s)"
proof -
  assume a: "mover_inv s"
  let ?s1 = "terminateMoverThread (atSubmit e) s"
  have 1: "mover_inv ?s1" "moverThread ?s1 = None"
    using a by (simp_all add: terminateMoverThread_def mover_inv_finalize)
  then have ph: "mover_phases Idle (trace ?s1) = Some Idle"
    "map ThreadedFileMover_addFileToDb (submissions (trace ?s1)) = commits (trace ?s1)"
    by (simp_all add: mover_inv_def pending_def)
  show ?thesis
  proof (cases "curFilename s = [] \<or> \<not> clipManager s")
    case True
    then show ?thesis using a by (simp add: addFileToDb_def)
  next
    case False
    then show ?thesis using ph
      by (simp add: addFileToDb_def mover_inv_def emit_def ThreadedFileMover_init_def
          getProcSize_def Let_def mover_phases_append pending_def terminateMoverThread_def
          split_beta)
  qed
qed

lemma mover_inv_update [simp]:
  "mover_inv (s\<lparr>isRunning := b\<rparr>) = mover_inv s"
  "mover_inv (s\<lparr>stream := h\<rparr>) = mover_inv s"
  "mover_inv (s\<lparr>recordInMemory := b\<rparr>) = mover_inv s"
  "mover_inv (s\<lparr>cachedProcSize := z\<rparr>) = mover_inv s"
  "mover_inv (s\<lparr>curFilePath := n\<rparr>) = mover_inv s"
  "mover_inv (s\<lparr>curFilename := n\<rparr>) = mover_inv s"
  "mover_inv (s\<lparr>curDirPath := n\<rparr>) = mover_inv s"
  "mover_inv (s\<lparr>prevFilename := n\<rparr>) = mover_inv s"
  "mover_inv (s\<lparr>prevDirPath := n\<rparr>) = mover_inv s"
  "mover_inv (s\<lparr>curStartMs := a\<rparr>) = mover_inv s"
  "mover_inv (s\<lparr>curLastMs := a\<rparr>) = mover_inv s"
  "mover_inv (initVariables s) = mover_inv s"
  by (simp_all add: mover_inv_def pending_def initVariables_def split: option.splits)

lemma mover_inv_flush: "mover_inv s \<Longrightarrow> mover_inv (flush m s)"
  by (simp add: flush_def mover_inv_emit)

lemma mover_inv_close: "mover_inv s \<Longrightarrow> mover_inv (StreamReader_close e k s)"
  by (simp add: StreamReader_close_def Let_def mover_inv_flush mover_inv_emit
      mover_inv_addFileToDb mover_inv_finalize terminateMoverThread_def)

lemma mover_inv_open: "mover_inv s \<Longrightarrow> mover_inv (snd (StreamReader_open h r e s))"
  by (simp add: StreamReader_open_def Let_def mover_inv_close)

lemma mover_inv_getNewFrame: "mover_inv s \<Longrightarrow> mover_inv (snd (getNewFrame e p s))"
  by (simp add: getNewFrame_def Let_def mover_inv_close mover_inv_addFileToDb mover_inv_finalize
      split: option.splits)

lemma mover_inv_getProcSize: "mover_inv s \<Longrightarrow> mover_inv (snd (getProcSize z s))"
  by (simp add: getProcSize_def Let_def)

lemma mover_inv_step: "mover_inv s \<Longrightarrow> mover_inv (step s a)"
  by (cases a) (simp_all add: mover_inv_open mover_inv_getNewFrame mover_inv_close
      mover_inv_flush mover_inv_getProcSize)

lemma mover_inv_init: "mover_inv (StreamReader_init n c r st m)"
  by (simp add: mover_inv_def StreamReader_init_def pending_def)

lemma mover_inv_run: "mover_inv s \<Longrightarrow> mover_inv (run_session s acts)"
  unfolding run_session_def
  by (induction acts arbitrary: s) (simp_all add: mover_inv_step)

lemma step_phase_count:
  "mover_step ph ev = Some ph' \<Longrightarrow>
   length (submissions [ev]) + busy ph = length (commits [ev]) + busy ph'"
  by (cases ev; cases ph) (auto split: if_splits)

lemma phases_count:
  "mover_phases ph es = Some ph' \<Longrightarrow>
   length (submissions es) + busy ph = length (commits es) + busy ph'"
proof (induction es arbitrary: ph)
  case Nil
  then show ?case by simp
next
  case (Cons ev es)
  then obtain ph1 where 1: "mover_step ph ev = Some ph1" and 2: "mover_phases ph1 es = Some ph'"
    by (auto split: option.splits)
  from step_phase_count [OF 1] Cons.IH [OF 2]
  show ?case
    using submissions_append [of "[ev]" es] commits_append [of "[ev]" es] by simp
qed

lemma busy_le: "busy ph \<le> 1"
  by (cases ph) simp_all

text \<open>
  C4. In every session, whatever is called and whenever the mover threads finish, every
  prefix of the trace keeps one mover in flight: a mover is started only when the job
  before it has relocated its file and its commit to the index has run, and the movers
  started never outnumber the commits by more than one.
\<close>

theorem one_mover_in_flight:
  "one_in_flight (take k (trace (run_session (StreamReader_init n c r st m) acts)))
   \<and> length (commits (take k (trace (run_session (StreamReader_init n c r st m) acts))))
       \<le> length (submissions (take k (trace (run_session (StreamReader_init n c r st m) acts))))
   \<and> length (submissions (take k (trace (run_session (StreamReader_init n c r st m) acts))))
       \<le> length (commits (take k (trace (run_session (StreamReader_init n c r st m) acts)))) + 1"
proof -
  let ?tr = "trace (run_session (StreamReader_init n c r st m) acts)"
  have "mover_inv (run_session (StreamReader_init n c r st m) acts)"
    by (simp add: mover_inv_run mover_inv_init)
  then have "mover_phases Idle ?tr \<noteq> None"
    by (auto simp: mover_inv_def split: option.splits)
  then have "mover_phases Idle (take k ?tr @ drop k ?tr) \<noteq> None"
    by simp
  then have "mover_phases Idle (take k ?tr) \<noteq> None"
    by (rule mover_phases_prefix)
  then obtain ph where ph: "mover_phases Idle (take k ?tr) = Some ph"
    by auto
  from phases_count [OF ph] busy_le [of ph] show ?thesis
    using ph by (simp add: one_in_flight_def)
qed

lemma camPending_thread: "moverThread camPending = Some segA"
  by code_simp

lemma camPending_trace: "trace camPending = [ThreadStart segA]"
  by code_simp

theorem one_mover_in_flight_witness:
  "one_in_flight (take 1 (trace camPending))
   \<and> length (commits (take 1 (trace camPending))) \<le> length (submissions (take 1 (trace camPending)))
   \<and> length (submissions (take 1 (trace camPending))) \<le> length (commits (take 1 (trace camPending))) + 1
   \<and> submissions (trace camPending) = [segA] \<and> commits (trace camPending) = []"
  using one_mover_in_flight [of 1 "''cam''" True "''/rec/cam/''" "''/store/''" True demoPolls]
  by (simp add: camPending_def cam_def camPending_trace [unfolded camPending_def cam_def])

subsection \<open>Relocation failures\<close>

text \<open>
  C1 as stated fails: \<^verbatim>\<open>_finalizeMoverThread\<close> calls \<^verbatim>\<open>addFileToDb\<close> on the mover
  whatever \<^verbatim>\<open>run\<close> did, so a segment whose relocation failed is committed to the index
  all the same, after the callback.
\<close>

theorem failed_relocation_committed_counterexample:
  "ShutilMove ''/rec/cam/clip001.mp4'' ''/store/cam/clip0/clip001.mp4'' False \<in> set (trace camFailed)
   \<and> callbacks (trace camFailed) = [''cam/clip0/clip001.mp4'']
   \<and> commits (trace camFailed) = [AddClip ''cam/clip0/clip001.mp4'' ''cam'' 0 0 [] 0 0]"
  by code_simp

text \<open>
  C1, amended. When the session finalizes a mover (it joins the thread or finds it
  finished), the index receives the commit for the mover's segment whether the
  relocation succeeded or not, and exactly when the relocation failed the supplied
  callback has been called with the segment's directory path joined with its file name.
  Hence a closed session has committed every segment it submitted, in order.
\<close>

theorem commit_regardless_of_relocation:
  "(moverThread s = Some t \<and> mv_curFilename t \<noteq> [] \<and> mv_clipManager t
      \<and> (blockIfRunning \<or> \<not> alive ob) \<longrightarrow>
      commits (trace (finalizeMoverThread blockIfRunning ob s)) =
        commits (trace s) @ [ThreadedFileMover_addFileToDb t]
      \<and> callbacks (trace (finalizeMoverThread blockIfRunning ob s)) =
          callbacks (trace s) @
          (if \<not> moved ob \<and> mv_moveFailedFn t
           then [os_path_join (mv_curDirPath t) (mv_curFilename t)] else []))
   \<and> commits (trace (StreamReader_close e k (run_session (StreamReader_init n c r st m) acts))) =
       map ThreadedFileMover_addFileToDb
         (submissions (trace (StreamReader_close e k (run_session (StreamReader_init n c r st m) acts))))"
proof -
  let ?c = "StreamReader_close e k (run_session (StreamReader_init n c r st m) acts)"
  have "mover_inv ?c"
    by (simp add: mover_inv_close mover_inv_run mover_inv_init)
  moreover have "moverThread ?c = None"
    by (rule close_mover)
  ultimately have "commits (trace ?c) = map ThreadedFileMover_addFileToDb (submissions (trace ?c))"
    by (simp add: mover_inv_def pending_def)
  moreover have "moverThread s = Some t \<and> mv_curFilename t \<noteq> [] \<and> mv_clipManager t
      \<and> (blockIfRunning \<or> \<not> alive ob) \<longrightarrow>
      commits (trace (finalizeMoverThread blockIfRunning ob s)) =
        commits (trace s) @ [ThreadedFileMover_addFileToDb t]
      \<and> callbacks (trace (finalizeMoverThread blockIfRunning ob s)) =
          callbacks (trace s) @
          (if \<not> moved ob \<and> mv_moveFailedFn t
           then [os_path_join (mv_curDirPath t) (mv_curFilename t)] else [])"
    by (auto simp: finalizeMoverThread_def emit_def ThreadedFileMover_run_def Let_def)
  ultimately show ?thesis by blast
qed

theorem commit_regardless_of_relocation_witness:
  "commits (trace (finalizeMoverThread True \<lparr>alive = True, moved = False\<rparr> camPending)) =
     [AddClip ''cam/sega./sega.mp4'' ''cam'' 0 200 [] 320 240]
   \<and> callbacks (trace (finalizeMoverThread True \<lparr>alive = True, moved = False\<rparr> camPending)) =
       [''cam/sega./segA.mp4'']"
proof -
  have 1: "mv_curFilename segA \<noteq> [] \<and> mv_clipManager segA \<and> mv_moveFailedFn segA"
    by code_simp
  have 2: "ThreadedFileMover_addFileToDb segA = AddClip ''cam/sega./sega.mp4'' ''cam'' 0 200 [] 320 240"
    by code_simp
  have 3: "os_path_join (mv_curDirPath segA) (mv_curFilename segA) = ''cam/sega./segA.mp4''"
    by code_simp
  show ?thesis
    using commit_regardless_of_relocation [of camPending segA True "\<lparr>alive = True, moved = False\<rparr>"]
      camPending_thread camPending_trace 1 2 3
    by simp
qed

subsection \<open>Move Jobs and segments\<close>

lemma mover_init_owner [simp]:
  "trace (snd (ThreadedFileMover_init np s)) = trace s"
  "moverThread (snd (ThreadedFileMover_init np s)) = moverThread s"
  by (simp_all add: ThreadedFileMover_init_def getProcSize_def Let_def split_beta)

lemma initVariables_trace [simp]: "trace (initVariables s) = trace s"
  by (simp add: initVariables_def)

lemma finalize_submissions [simp]:
  "submissions (trace (finalizeMoverThread b ob s)) = submissions (trace s)"
  by (simp add: finalizeMoverThread_def split: option.splits)

lemma addFileToDb_submissions:
  "map span (submissions (trace (addFileToDb e s))) =
     map span (submissions (trace s)) @
     (if curFilename s = [] \<or> \<not> clipManager s then []
      else [(curFilename s, curStartMs s, curLastMs s)])"
  by (simp add: addFileToDb_def split_beta terminateMoverThread_def span_def mover_init_fields)

lemma close_submissions:
  "stream s \<noteq> None \<Longrightarrow> clipManager s \<Longrightarrow>
   map span (submissions (trace (StreamReader_close e k s))) =
     map span (submissions (trace s)) @
     (if curFilename s = [] then [] else [(curFilename s, curStartMs s, curLastMs s)])"
  by (simp add: StreamReader_close_def Let_def flush_def terminateMoverThread_def
      addFileToDb_submissions initVariables_def)

lemma tracking_close_running:
  assumes "tracking segs s" and "stream s \<noteq> None" and "isRunning s"
  shows "map span (submissions (trace (StreamReader_close e k s))) = map stored (rev segs)"
proof -
  from assms have cm: "clipManager s" by (simp add: tracking_def)
  show ?thesis
  proof (cases segs)
    case Nil
    with assms show ?thesis
      by (simp add: close_submissions [OF assms(2) cm] tracking_def)
  next
    case (Cons g older)
    with assms show ?thesis
      by (auto simp: close_submissions [OF assms(2) cm] tracking_def stored_def)
  qed
qed

lemma tracking_close_closed:
  assumes "tracking segs s" and "\<not> (stream s \<noteq> None \<and> isRunning s)"
  shows "map span (submissions (trace (StreamReader_close e k s))) = map stored (rev segs)"
  using assms
  by (simp add: tracking_def StreamReader_close_def Let_def flush_def terminateMoverThread_def
      split: if_splits)

lemma getNewFrame_new_segment_submissions:
  assumes "stream s \<noteq> None" "isRunning s" "clipManager s"
    and "result p = Some f" "sf_isRunning f \<noteq> 0" "sf_filename f \<noteq> curFilePath s"
  shows "map span (submissions (trace (snd (getNewFrame e p s)))) =
     map span (submissions (trace s)) @
     (if curFilename s = [] then [] else [(curFilename s, curStartMs s, curLastMs s)])"
  using assms by (auto simp: getNewFrame_def Let_def addFileToDb_submissions)

lemma tracking_getNewFrame:
  assumes "tracking segs s"
  shows "case fst (getNewFrame e p s) of
           None \<Rightarrow> tracking segs (snd (getNewFrame e p s))
         | Some f \<Rightarrow> os_path_split_tail (sf_filename f) \<noteq> [] \<longrightarrow>
                      tracking (track segs f) (snd (getNewFrame e p s))"
proof (cases "stream s \<noteq> None \<and> isRunning s")
  case False
  then have "getNewFrame e p s = (None, s)"
    by (auto simp: getNewFrame_def)
  with assms show ?thesis by simp
next
  case True
  then have run: "stream s \<noteq> None" "isRunning s" by simp_all
  with assms have cm: "clipManager s" by (simp add: tracking_def)
  show ?thesis
  proof (cases "(case result p of None \<Rightarrow> is_running p | Some f \<Rightarrow> sf_isRunning f) = 0")
    case stopped: True
    with run have g: "getNewFrame e p s = (None, StreamReader_close e False s)"
      by (auto simp: getNewFrame_def Let_def)
    have "tracking segs (StreamReader_close e False s)"
      using close_closed [of e False s] tracking_close_running [OF assms run, of e False]
      by (simp add: tracking_def)
    with g show ?thesis by simp
  next
    case going: False
    show ?thesis
    proof (cases "result p")
      case None
      with run going have "getNewFrame e p s = (None, s)"
        by (auto simp: getNewFrame_def Let_def)
      with assms show ?thesis by simp
    next
      case (Some f)
      with going have nz: "sf_isRunning f \<noteq> 0" by simp
      show ?thesis
      proof (cases "sf_filename f \<noteq> curFilePath s")
        case new: True
        note seg = getNewFrame_new_segment [OF run cm Some nz new, of e]
        note sub = getNewFrame_new_segment_submissions [OF run cm Some nz new, of e]
        have "os_path_split_tail (sf_filename f) \<noteq> [] \<longrightarrow>
              tracking (track segs f) (snd (getNewFrame e p s))"
        proof (cases segs)
          case Nil
          with assms run show ?thesis
            by (simp add: tracking_def seg sub)
        next
          case (Cons g older)
          obtain n a b where g: "g = (n, a, b)" by (cases g)
          from assms run Cons g new show ?thesis
            by (auto simp: tracking_def seg sub stored_def)
        qed
        with seg(1) show ?thesis by simp
      next
        case same: False
        then have nn: "\<not> (clipManager s \<and> sf_filename f \<noteq> curFilePath s)" by simp
        note seg = getNewFrame_same_segment [OF run Some nz nn, of e]
        have "os_path_split_tail (sf_filename f) \<noteq> [] \<longrightarrow>
              tracking (track segs f) (snd (getNewFrame e p s))"
        proof (cases segs)
          case Nil
          with assms run same show ?thesis
            by (auto simp: tracking_def os_path_split_tail_def)
        next
          case (Cons g older)
          obtain n a b where g: "g = (n, a, b)" by (cases g)
          from assms run Cons g same show ?thesis
            by (auto simp: tracking_def seg)
        qed
        with seg(1) show ?thesis by simp
      qed
    qed
  qed
qed

lemma tracking_pollAll:
  "tracking segs s \<Longrightarrow> \<forall>f\<in>set (fst (pollAll s ps)). os_path_split_tail (sf_filename f) \<noteq> [] \<Longrightarrow>
   tracking (foldl track segs (fst (pollAll s ps))) (snd (pollAll s ps))"
proof (induction ps arbitrary: s segs)
  case Nil
  then show ?case by simp
next
  case (Cons ep ps)
  obtain e p where ep: "ep = (e, p)" by (cases ep)
  note st = tracking_getNewFrame [OF Cons.prems(1), of e p]
  show ?case
  proof (cases "fst (getNewFrame e p s)")
    case None
    with st have t: "tracking segs (snd (getNewFrame e p s))" by simp
    from None have eq: "pollAll s (ep # ps) = pollAll (snd (getNewFrame e p s)) ps"
      by (simp add: ep split_beta)
    show ?thesis
      using Cons.IH [OF t] Cons.prems(2) unfolding eq by simp
  next
    case (Some f)
    then have eq: "fst (pollAll s (ep # ps)) = f # fst (pollAll (snd (getNewFrame e p s)) ps)"
      "snd (pollAll s (ep # ps)) = snd (pollAll (snd (getNewFrame e p s)) ps)"
      by (simp_all add: ep split_beta)
    with Cons.prems(2) have wf: "os_path_split_tail (sf_filename f) \<noteq> []"
      "\<forall>f\<in>set (fst (pollAll (snd (getNewFrame e p s)) ps)). os_path_split_tail (sf_filename f) \<noteq> []"
      by simp_all
    from st Some wf(1) have t: "tracking (track segs f) (snd (getNewFrame e p s))" by simp
    show ?thesis
      using Cons.IH [OF t wf(2)] unfolding eq by simp
  qed
qed

lemma length_track:
  "length (foldl track (g # older) fs) =
     Suc (length older) + transitions (fst g # map sf_filename fs)"
proof (induction fs arbitrary: g older)
  case Nil
  then show ?case by simp
next
  case (Cons f fs)
  obtain n a b where g: "g = (n, a, b)" by (cases g)
  show ?case
    by (cases "sf_filename f = n") (simp_all add: g Cons.IH)
qed

lemma length_segments:
  "length (foldl track [] fs) = transitions (map sf_filename fs) + (if fs = [] then 0 else 1)"
  by (cases fs) (simp_all add: length_track)

lemma tracking_open:
  "tracking [] (snd (StreamReader_open handle recInMemory e0 (StreamReader_init name' True recordDir' storageDir' cb)))"
  by (simp add: StreamReader_open_def StreamReader_init_def Let_def tracking_def)

text \<open>
  C3 as stated fails for a file name with no last component. \<^verbatim>\<open>_curFilename\<close> is the
  last component of the reported path, and \<^verbatim>\<open>_addFileToDb\<close> returns at once when it is
  empty: of the three delivered frames below, with two transitions and a segment in
  progress at close, only the first and the last file get a mover, one started while
  polling and two in all, where the claim counts two and three.
\<close>

theorem unnamed_segment_counterexample:
  "map sf_filename (fst (pollAll camOpen gapPolls)) =
     [''/rec/cam/a.mp4'', ''/rec/cam/'', ''/rec/cam/b.mp4'']
   \<and> transitions (map sf_filename (fst (pollAll camOpen gapPolls))) = 2
   \<and> isRunning (snd (pollAll camOpen gapPolls))
   \<and> length (submissions (trace (snd (pollAll camOpen gapPolls)))) = 1
   \<and> map span (submissions (trace (StreamReader_close envOk False (snd (pollAll camOpen gapPolls))))) =
       [(''a.mp4'', 0, 0), (''b.mp4'', 200, 200)]"
  by code_simp

text \<open>
  C3, amended. A session with a clip manager is opened, polled any number of times and
  closed; the frames it delivered name files (their paths have a last component). Then
  the number of movers started is the number of file name transitions among the
  delivered frames, plus one when a frame was delivered at all (the segment in progress
  at close); while the session still runs, before the close, it is the number of
  transitions; with no frame delivered no mover is started; and the movers started
  carry, in order, the segments of the delivered frames, each with the timestamps of its
  first and last frame.
\<close>

theorem move_jobs_follow_segments:
  assumes "pollAll (snd (StreamReader_open handle recInMemory e0
                      (StreamReader_init name' True recordDir' storageDir' cb))) ps = (fs, s2)"
    and "\<forall>f\<in>set fs. os_path_split_tail (sf_filename f) \<noteq> []"
  shows "length (submissions (trace (StreamReader_close e k s2))) =
           transitions (map sf_filename fs) + (if fs = [] then 0 else 1)
     \<and> (stream s2 \<noteq> None \<and> isRunning s2 \<longrightarrow>
           length (submissions (trace s2)) = transitions (map sf_filename fs))
     \<and> (fs = [] \<longrightarrow> submissions (trace (StreamReader_close e k s2)) = [])
     \<and> map span (submissions (trace (StreamReader_close e k s2))) = map stored (segments fs)"
proof -
  let ?s1 = "snd (StreamReader_open handle recInMemory e0
                (StreamReader_init name' True recordDir' storageDir' cb))"
  from assms have fs: "fst (pollAll ?s1 ps) = fs" and s2: "snd (pollAll ?s1 ps) = s2"
    by simp_all
  have tr: "tracking (foldl track [] fs) s2"
    using tracking_pollAll [OF tracking_open, of handle recInMemory e0 name' recordDir' storageDir' cb ps]
      assms(2) unfolding fs s2 by simp
  have all: "map span (submissions (trace (StreamReader_close e k s2))) = map stored (segments fs)"
    using tracking_close_running [OF tr, of e k] tracking_close_closed [OF tr, of e k]
    by (cases "stream s2 \<noteq> None \<and> isRunning s2") (simp_all add: segments_def)
  then have "length (map span (submissions (trace (StreamReader_close e k s2)))) =
      length (map stored (segments fs))"
    by simp
  then have len: "length (submissions (trace (StreamReader_close e k s2))) =
           transitions (map sf_filename fs) + (if fs = [] then 0 else 1)"
    by (simp add: segments_def length_segments)
  have run: "stream s2 \<noteq> None \<and> isRunning s2 \<longrightarrow>
           length (submissions (trace s2)) = transitions (map sf_filename fs)"
  proof
    assume r: "stream s2 \<noteq> None \<and> isRunning s2"
    show "length (submissions (trace s2)) = transitions (map sf_filename fs)"
    proof (cases "foldl track [] fs")
      case Nil
      with length_segments [of fs] have "fs = []" by (cases fs) simp_all
      with tr r Nil show ?thesis by (simp add: tracking_def)
    next
      case (Cons g older)
      with tr r have "length (map span (submissions (trace s2))) = length (map stored (rev older))"
        by (simp add: tracking_def)
      with length_segments [of fs] Cons show ?thesis
        by (cases fs) simp_all
    qed
  qed
  from len have "fs = [] \<longrightarrow> submissions (trace (StreamReader_close e k s2)) = []"
    by auto
  with len run all show ?thesis by blast
qed

lemma segPolls_run: "pollAll camOpen segPolls = (segFrames, camPending)"
  by code_simp

lemma segFrames_facts:
  "(\<forall>f\<in>set segFrames. os_path_split_tail (sf_filename f) \<noteq> [])
   \<and> transitions (map sf_filename segFrames) = 1
   \<and> map stored (segments segFrames) = [(''segA.mp4'', 0, 200), (''segB.mp4'', 300, 300)]
   \<and> stream camPending \<noteq> None \<and> isRunning camPending"
  by code_simp

theorem move_jobs_follow_segments_witness:
  "length (submissions (trace camPending)) = 1
   \<and> map span (submissions (trace (StreamReader_close envOk False camPending))) =
       [(''segA.mp4'', 0, 200), (''segB.mp4'', 300, 300)]"
  using move_jobs_follow_segments [of "Some 7" False envOk "''cam''" "''/rec/cam/''" "''/store/''" True
      segPolls segFrames camPending envOk False]
    segPolls_run segFrames_facts
  by (simp add: camOpen_def cam_def)

end
